theory Spec2Isabelle
  imports Complex_Main "HOL-Library.Char_ord" "HOL-Library.List_Lexorder"
    "HOL-Library.Option_ord" "HOL-Library.Product_Lexorder"
begin

section \<open>Data model (db/models.py)\<close>

text \<open>
  Python strings are character lists; their comparison (\<open>msg.ts <= oldest\<close> in the
  poller) is the lexicographic order of \<^theory_text>\<open>List_Lexorder\<close> over the character
  codes of \<^theory_text>\<open>Char_ord\<close>. A \<open>datetime\<close> is an instant, in seconds since the
  epoch (what \<open>datetime.timestamp()\<close> reads), as an exact rational: the rounding of
  floating point numbers is left out.
\<close>

type_synonym datetime = rat

text \<open>One entry of a raw message's \<open>reactions\<close> list, read with
  \<open>reaction.get('name', '')\<close> and \<open>reaction.get('users', [])\<close>.\<close>

record reaction_data =
  reaction_name :: "string option"
  reaction_users :: "string list option"

text \<open>The value of a key that a dataclass keeps in its \<open>metadata\<close> dict.\<close>

datatype json = Json string | JsonReactions "reaction_data list"

type_synonym metadata = "(string \<times> json) list"

text \<open>
  A raw message dict of the Slack API. A key that is absent is \<open>None\<close>;
  \<open>raw_edited\<close> is \<open>'edited' in msg\<close>; \<open>raw_other\<close> holds every other key.
\<close>

record slack_msg =
  raw_ts :: "string option"
  raw_user :: "string option"
  raw_text :: "string option"
  raw_thread_ts :: "string option"
  raw_reply_count :: "int option"
  raw_edited :: bool
  raw_type :: "string option"
  raw_reactions :: "reaction_data list option"
  raw_other :: "(string \<times> string) list"

text \<open>The dataclasses \<open>Message\<close>, \<open>Channel\<close>, \<open>User\<close>, \<open>SyncState\<close>.\<close>

record message =
  msg_id :: "int option"
  channel_id :: string
  ts :: string
  user_id :: "string option"
  msg_text :: "string option"
  thread_ts :: "string option"
  reply_count :: int
  is_edited :: bool
  message_type :: string
  created_at :: "datetime option"
  updated_at :: "datetime option"
  metadata :: metadata

record channel =
  ch_id :: string
  ch_name :: "string option"
  channel_type :: string
  is_archived :: bool
  ch_created_at :: "datetime option"
  ch_updated_at :: "datetime option"
  ch_metadata :: metadata

record user =
  u_id :: string
  u_name :: "string option"
  real_name :: "string option"
  display_name :: "string option"
  is_bot :: bool
  u_updated_at :: "datetime option"
  u_metadata :: metadata

record SyncState =
  ss_channel_id :: string
  last_ts :: "string option"
  last_sync_at :: "datetime option"

text \<open>Python truthiness of an optional string: \<open>None\<close> and \<open>''\<close> are falsy.\<close>

fun truthy :: "string option \<Rightarrow> bool" where
  "truthy None = False"
| "truthy (Some v) = (v \<noteq> [])"

text \<open>
  \<open>Message.from_slack\<close>. The conversion \<open>datetime.fromtimestamp(float(ts))\<close> is the
  parameter \<open>fromtimestamp\<close>: it gives \<open>None\<close> where the source catches
  \<open>ValueError\<close> or \<open>TypeError\<close> (a \<open>ts\<close> that is not a number is kept as it is, without
  a \<open>created_at\<close>). The source does not catch the \<open>OverflowError\<close> of a \<open>ts\<close> such as
  \<open>'1e20'\<close>, which ends the sync of the channel at that message before anything is
  written for it and before the cursor is written: the model is of the messages for
  which \<open>from_slack\<close> returns. The \<open>reactions\<close> key is not among the seven excluded
  keys, so it stays in \<open>metadata\<close>.
\<close>

definition from_slack :: "(string \<Rightarrow> datetime option) \<Rightarrow> string \<Rightarrow> slack_msg \<Rightarrow> message" where
  "from_slack fromtimestamp cid msg =
     (let t = (case raw_ts msg of None \<Rightarrow> [] | Some v \<Rightarrow> v)
      in \<lparr> msg_id = None,
           channel_id = cid,
           ts = t,
           user_id = raw_user msg,
           msg_text = raw_text msg,
           thread_ts = raw_thread_ts msg,
           reply_count = (case raw_reply_count msg of None \<Rightarrow> 0 | Some n \<Rightarrow> n),
           is_edited = raw_edited msg,
           message_type = (case raw_type msg of None \<Rightarrow> ''message'' | Some v \<Rightarrow> v),
           created_at = (if t \<noteq> [] then fromtimestamp t else None),
           updated_at = None,
           metadata =
             (case raw_reactions msg of None \<Rightarrow> [] | Some rs \<Rightarrow> [(''reactions'', JsonReactions rs)])
             @ map (\<lambda>(k, v). (k, Json v))
                 (filter (\<lambda>(k, v). k \<notin> set [''ts'', ''user'', ''text'', ''thread_ts'',
                                              ''reply_count'', ''type'', ''edited''])
                    (raw_other msg)) \<rparr>)"

section \<open>The store (db/repository.py)\<close>

text \<open>
  The tables are lists of rows in insertion order. A row of \<open>messages\<close> has the
  columns of the \<open>INSERT\<close> in \<open>upsert_message\<close> and the generated \<open>id\<close>; a row of
  \<open>reactions\<close> has the columns of the \<open>INSERT\<close> in \<open>upsert_reactions\<close>.
  \<open>clock\<close> is what \<open>NOW()\<close> returns; the two counters are the sequences behind the
  generated ids.
\<close>

record message_row =
  row_id :: int
  row_channel_id :: string
  row_ts :: string
  row_user_id :: "string option"
  row_text :: "string option"
  row_thread_ts :: "string option"
  row_reply_count :: int
  row_is_edited :: bool
  row_message_type :: string
  row_created_at :: "datetime option"
  row_updated_at :: "datetime option"
  row_metadata :: metadata

record reaction_row =
  rx_id :: int
  rx_message_id :: int
  rx_name :: string
  rx_user_id :: string
  rx_created_at :: datetime

record store =
  channels :: "channel list"
  users :: "user list"
  messages :: "message_row list"
  reactions :: "reaction_row list"
  sync_state :: "SyncState list"
  next_message_id :: int
  next_reaction_id :: int
  clock :: datetime

text \<open>\<open>Repository._row_to_message\<close>.\<close>

definition row_to_message :: "message_row \<Rightarrow> message" where
  "row_to_message row =
     \<lparr> msg_id = Some (row_id row),
       channel_id = row_channel_id row,
       ts = row_ts row,
       user_id = row_user_id row,
       msg_text = row_text row,
       thread_ts = row_thread_ts row,
       reply_count = row_reply_count row,
       is_edited = row_is_edited row,
       message_type = row_message_type row,
       created_at = row_created_at row,
       updated_at = row_updated_at row,
       metadata = row_metadata row \<rparr>"

text \<open>
  Errors are values. \<open>StorageError\<close> is any exception the storage engine raises for
  a statement; \<open>KeyError\<close> is Python's, from \<open>user_info['id']\<close>; \<open>RuntimeError\<close> is
  raised by \<open>get_status\<close> for a client that is not authenticated; \<open>ValueError\<close> and
  \<open>OverflowError\<close> are raised by \<open>datetime.fromtimestamp(float(ts))\<close> in
  \<open>_slack_api_search\<close>, which catches neither.
\<close>

datatype error = StorageError | KeyError | RuntimeError | ValueError | OverflowError

text \<open>
  The statements the sync path sends to the engine. Whether the engine raises for a
  statement is not decided by the repository code, so it is a parameter
  (\<open>engine_raises\<close> below): a statement that raises changes nothing.
\<close>

datatype statement =
    UpsertMessage message
  | DeleteReactions int
  | InsertReaction int string string
  | SelectSyncState string
  | UpsertSyncState SyncState
  | SelectUser string
  | UpsertUser user
  | SelectChannels

text \<open>The raw \<open>user\<close> dict of \<open>users_info\<close>, as \<open>_ensure_user_cached\<close> reads it.\<close>

record user_info =
  ui_id :: "string option"
  ui_name :: "string option"
  ui_real_name :: "string option"
  ui_display_name :: "string option"
  ui_is_bot :: "bool option"
  ui_other :: "(string \<times> string) list"

text \<open>
  The environment of one sync cycle: what the client wrapper returns and how the
  engine answers.
  \<^item> \<open>get_channel_history c oldest\<close> is the list \<open>SlackClient.get_channel_history\<close>
    returns (its paging loop and its swallowed API errors are behind this boundary);
  \<^item> \<open>conversations_replies c t\<close> is the outcome of the API call inside
    \<open>get_thread_replies\<close>: \<open>Inl\<close> an API error, \<open>Inr\<close> the response's \<open>messages\<close>
    key (\<open>None\<close> when absent);
  \<^item> \<open>get_user_info u\<close> is what \<open>SlackClient.get_user_info\<close> returns.
\<close>

record env =
  get_channel_history :: "string \<Rightarrow> string option \<Rightarrow> slack_msg list"
  conversations_replies :: "string \<Rightarrow> string \<Rightarrow> string + slack_msg list option"
  get_user_info :: "string \<Rightarrow> user_info option"
  fromtimestamp :: "string \<Rightarrow> datetime option"
  engine_raises :: "statement \<Rightarrow> bool"

text \<open>
  A repository operation runs on a store and either returns a value or raises; in both
  cases it leaves a store behind (no operation of the repository opens a transaction).
\<close>

type_synonym 'a action = "store \<Rightarrow> (error + 'a) \<times> store"

definition returns :: "'a \<Rightarrow> 'a action" where
  "returns a s = (Inr a, s)"

definition raises :: "error \<Rightarrow> 'a action" where
  "raises e s = (Inl e, s)"

definition and_then :: "'a action \<Rightarrow> ('a \<Rightarrow> 'b action) \<Rightarrow> 'b action" where
  "and_then m f s = (case m s of (Inl e, s') \<Rightarrow> (Inl e, s') | (Inr a, s') \<Rightarrow> f a s')"

subsection \<open>Messages\<close>

definition same_key :: "message \<Rightarrow> message_row \<Rightarrow> bool" where
  "same_key message row \<longleftrightarrow> row_channel_id row = channel_id message \<and> row_ts row = ts message"

text \<open>The \<open>DO UPDATE SET\<close> list of \<open>upsert_message\<close>: seven columns.\<close>

definition conflict_update :: "datetime \<Rightarrow> message \<Rightarrow> message_row \<Rightarrow> message_row" where
  "conflict_update now message row =
     row\<lparr> row_user_id := user_id message,
          row_text := msg_text message,
          row_thread_ts := thread_ts message,
          row_reply_count := reply_count message,
          row_is_edited := is_edited message,
          row_updated_at := Some now,
          row_metadata := metadata message \<rparr>"

text \<open>The \<open>VALUES\<close> list of \<open>upsert_message\<close>, with the generated id.\<close>

definition inserted_row :: "int \<Rightarrow> datetime \<Rightarrow> message \<Rightarrow> message_row" where
  "inserted_row new_id now message =
     \<lparr> row_id = new_id,
       row_channel_id = channel_id message,
       row_ts = ts message,
       row_user_id = user_id message,
       row_text = msg_text message,
       row_thread_ts = thread_ts message,
       row_reply_count = reply_count message,
       row_is_edited = is_edited message,
       row_message_type = message_type message,
       row_created_at = created_at message,
       row_updated_at = Some now,
       row_metadata = metadata message \<rparr>"

text \<open>
  \<open>upsert_message\<close>: \<open>INSERT ... ON CONFLICT (channel_id, ts) DO UPDATE SET ...
  RETURNING id\<close>. The sequence advances for every attempted insert, as the engine
  computes the default of \<open>id\<close> before it detects the conflict.
\<close>

definition upsert_message :: "env \<Rightarrow> message \<Rightarrow> int action" where
  "upsert_message e message s =
     (if engine_raises e (UpsertMessage message) then (Inl StorageError, s)
      else
        (case find (same_key message) (messages s) of
           Some row \<Rightarrow>
             (Inr (row_id row),
              s\<lparr> messages :=
                    map (\<lambda>r. if same_key message r then conflict_update (clock s) message r else r)
                      (messages s),
                  next_message_id := next_message_id s + 1 \<rparr>)
         | None \<Rightarrow>
             (Inr (next_message_id s),
              s\<lparr> messages := messages s @ [inserted_row (next_message_id s) (clock s) message],
                  next_message_id := next_message_id s + 1 \<rparr>)))"

text \<open>The key of a row under \<open>UNIQUE(channel_id, ts)\<close>.\<close>

definition message_key :: "message_row \<Rightarrow> string \<times> string" where
  "message_key row = (row_channel_id row, row_ts row)"

subsection \<open>Loops\<close>

text \<open>A \<open>for\<close> loop over a list whose body may raise: the first exception ends the
  loop and leaves the store as the body left it.\<close>

fun for_each :: "('a \<Rightarrow> unit action) \<Rightarrow> 'a list \<Rightarrow> unit action" where
  "for_each body [] s = (Inr (), s)"
| "for_each body (x # xs) s =
     (case body x s of
        (Inl e, s') \<Rightarrow> (Inl e, s')
      | (Inr u, s') \<Rightarrow> for_each body xs s')"

subsection \<open>Reactions\<close>

text \<open>
  One \<open>INSERT INTO reactions ... ON CONFLICT DO NOTHING\<close>.
  Modelled from the spec: the schema of the \<open>reactions\<close> table is not among the
  sources; the spec gives the key of a reaction as \<open>(message_id, emoji_name, user_id)\<close>,
  so an insert of a triple that is already stored does nothing.
\<close>

definition insert_reaction :: "env \<Rightarrow> int \<Rightarrow> string \<Rightarrow> string \<Rightarrow> unit action" where
  "insert_reaction e message_id name uid s =
     (if engine_raises e (InsertReaction message_id name uid) then (Inl StorageError, s)
      else if list_ex (\<lambda>r. rx_message_id r = message_id \<and> rx_name r = name \<and> rx_user_id r = uid)
                (reactions s)
      then (Inr (), s\<lparr> next_reaction_id := next_reaction_id s + 1 \<rparr>)
      else (Inr (),
            s\<lparr> reactions := reactions s @
                   [\<lparr> rx_id = next_reaction_id s, rx_message_id = message_id, rx_name = name,
                      rx_user_id = uid, rx_created_at = clock s \<rparr>],
                next_reaction_id := next_reaction_id s + 1 \<rparr>))"

text \<open>\<open>upsert_reactions\<close>: one \<open>DELETE\<close>, then the two nested loops of inserts.\<close>

definition upsert_reactions :: "env \<Rightarrow> int \<Rightarrow> reaction_data list \<Rightarrow> unit action" where
  "upsert_reactions e message_id rs s =
     (if engine_raises e (DeleteReactions message_id) then (Inl StorageError, s)
      else
        for_each
          (\<lambda>reaction.
             for_each (insert_reaction e message_id
                         (case reaction_name reaction of None \<Rightarrow> [] | Some n \<Rightarrow> n))
               (case reaction_users reaction of None \<Rightarrow> [] | Some us \<Rightarrow> us))
          rs
          (s\<lparr> reactions := filter (\<lambda>r. rx_message_id r \<noteq> message_id) (reactions s) \<rparr>))"

subsection \<open>Sync state, users, channels\<close>

definition get_sync_state :: "env \<Rightarrow> string \<Rightarrow> SyncState option action" where
  "get_sync_state e cid s =
     (if engine_raises e (SelectSyncState cid) then (Inl StorageError, s)
      else (Inr (find (\<lambda>r. ss_channel_id r = cid) (sync_state s)), s))"

definition upsert_sync_state :: "env \<Rightarrow> SyncState \<Rightarrow> unit action" where
  "upsert_sync_state e st s =
     (if engine_raises e (UpsertSyncState st) then (Inl StorageError, s)
      else
        (Inr (),
         s\<lparr> sync_state :=
               (if list_ex (\<lambda>r. ss_channel_id r = ss_channel_id st) (sync_state s)
                then map (\<lambda>r. if ss_channel_id r = ss_channel_id st
                               then r\<lparr> last_ts := last_ts st, last_sync_at := Some (clock s) \<rparr>
                               else r)
                       (sync_state s)
                else sync_state s @ [st\<lparr> last_sync_at := Some (clock s) \<rparr>]) \<rparr>))"

definition find_user :: "string \<Rightarrow> store \<Rightarrow> user option" where
  "find_user uid s = find (\<lambda>u. u_id u = uid) (users s)"

definition get_user :: "env \<Rightarrow> string \<Rightarrow> user option action" where
  "get_user e uid s =
     (if engine_raises e (SelectUser uid) then (Inl StorageError, s)
      else (Inr (find_user uid s), s))"

definition upsert_user :: "env \<Rightarrow> user \<Rightarrow> unit action" where
  "upsert_user e u s =
     (if engine_raises e (UpsertUser u) then (Inl StorageError, s)
      else
        (Inr (),
         s\<lparr> users :=
               (if list_ex (\<lambda>r. u_id r = u_id u) (users s)
                then map (\<lambda>r. if u_id r = u_id u
                               then r\<lparr> u_name := u_name u, real_name := real_name u,
                                      display_name := display_name u, is_bot := is_bot u,
                                      u_updated_at := Some (clock s), u_metadata := u_metadata u \<rparr>
                               else r)
                       (users s)
                else users s @ [u\<lparr> u_updated_at := Some (clock s) \<rparr>]) \<rparr>))"

definition find_channel :: "string \<Rightarrow> store \<Rightarrow> channel option" where
  "find_channel cid s = find (\<lambda>c. ch_id c = cid) (channels s)"

definition get_all_channels :: "env \<Rightarrow> channel list action" where
  "get_all_channels e s =
     (if engine_raises e SelectChannels then (Inl StorageError, s)
      else (Inr (filter (\<lambda>c. \<not> is_archived c) (channels s)), s))"

section \<open>The client and the poller (slack/client.py, slack/poller.py)\<close>

text \<open>\<open>SlackClient.get_thread_replies\<close>: an API error is logged and gives \<open>[]\<close>;
  otherwise \<open>messages[1:] if len(messages) > 1 else []\<close>.\<close>

definition get_thread_replies :: "env \<Rightarrow> string \<Rightarrow> string \<Rightarrow> slack_msg list" where
  "get_thread_replies e cid tts =
     (case conversations_replies e cid tts of
        Inl err \<Rightarrow> []
      | Inr response \<Rightarrow>
          (let msgs = (case response of None \<Rightarrow> [] | Some ms \<Rightarrow> ms)
           in if length msgs > 1 then drop 1 msgs else []))"

text \<open>\<open>if not user_info\<close>: \<open>None\<close> and the empty dict are falsy.\<close>

definition empty_dict :: "user_info \<Rightarrow> bool" where
  "empty_dict info \<longleftrightarrow>
     ui_id info = None \<and> ui_name info = None \<and> ui_real_name info = None \<and>
     ui_display_name info = None \<and> ui_is_bot info = None \<and> ui_other info = []"

text \<open>\<open>_ensure_user_cached\<close>. The \<open>profile\<close> dict, which the source keeps in
  \<open>metadata\<close>, is modelled by its \<open>display_name\<close>.\<close>

definition ensure_user_cached :: "env \<Rightarrow> string \<Rightarrow> unit action" where
  "ensure_user_cached e uid =
     and_then (get_user e uid) (\<lambda>existing.
       case existing of
         Some u \<Rightarrow> returns ()
       | None \<Rightarrow>
           (case get_user_info e uid of
              None \<Rightarrow> returns ()
            | Some info \<Rightarrow>
                if empty_dict info then returns ()
                else
                  (case ui_id info of
                     None \<Rightarrow> raises KeyError
                   | Some i \<Rightarrow>
                       upsert_user e
                         \<lparr> u_id = i,
                           u_name = ui_name info,
                           real_name = ui_real_name info,
                           display_name = ui_display_name info,
                           is_bot = (case ui_is_bot info of None \<Rightarrow> False | Some b \<Rightarrow> b),
                           u_updated_at = None,
                           u_metadata =
                             (case ui_display_name info of
                                None \<Rightarrow> [] | Some d \<Rightarrow> [(''profile'', Json d)])
                             @ map (\<lambda>(k, v). (k, Json v))
                                 (filter (\<lambda>(k, v). k \<notin> set [''id'', ''name'', ''real_name'', ''is_bot''])
                                    (ui_other info)) \<rparr>)))"

text \<open>
  The two statements \<open>if reactions := msg_data.get('reactions'):
  await self.repository.upsert_reactions(message_id, reactions)\<close>, which both loops of
  the poller hold: a missing key and an empty list are falsy, and then nothing is
  written.
\<close>

definition store_reactions :: "env \<Rightarrow> int \<Rightarrow> reaction_data list option \<Rightarrow> unit action" where
  "store_reactions e message_id snapshot =
     (case snapshot of
        None \<Rightarrow> returns ()
      | Some rs \<Rightarrow> if rs \<noteq> [] then upsert_reactions e message_id rs else returns ())"

text \<open>\<open>if msg.user_id: await self._ensure_user_cached(msg.user_id)\<close>.\<close>

definition cache_author :: "env \<Rightarrow> string option \<Rightarrow> unit action" where
  "cache_author e author =
     (case author of
        None \<Rightarrow> returns ()
      | Some uid \<Rightarrow> if uid \<noteq> [] then ensure_user_cached e uid else returns ())"

text \<open>The body of the loop of \<open>_sync_thread_replies\<close>, and the method.\<close>

definition sync_reply :: "env \<Rightarrow> string \<Rightarrow> slack_msg \<Rightarrow> unit action" where
  "sync_reply e cid reply_data =
     (let reply = from_slack (fromtimestamp e) cid reply_data
      in and_then (upsert_message e reply) (\<lambda>message_id.
         and_then (store_reactions e message_id (raw_reactions reply_data)) (\<lambda>u.
         cache_author e (user_id reply))))"

definition sync_thread_replies :: "env \<Rightarrow> string \<Rightarrow> string \<Rightarrow> unit action" where
  "sync_thread_replies e cid tts = for_each (sync_reply e cid) (get_thread_replies e cid tts)"

text \<open>\<open>oldest and msg.ts <= oldest\<close>: the message was already seen.\<close>

definition already_seen :: "string option \<Rightarrow> string \<Rightarrow> bool" where
  "already_seen oldest t \<longleftrightarrow> (case oldest of None \<Rightarrow> False | Some bound \<Rightarrow> bound \<noteq> [] \<and> t \<le> bound)"

text \<open>The body of the loop of \<open>_sync_channel_messages\<close> (\<open>new_count\<close> only feeds the
  log and is left out).\<close>

definition sync_message :: "env \<Rightarrow> string \<Rightarrow> string option \<Rightarrow> slack_msg \<Rightarrow> unit action" where
  "sync_message e cid oldest msg_data =
     (let msg = from_slack (fromtimestamp e) cid msg_data
      in if already_seen oldest (ts msg) then returns ()
         else
           and_then (upsert_message e msg) (\<lambda>message_id.
           and_then (store_reactions e message_id (raw_reactions msg_data)) (\<lambda>u.
           and_then (if reply_count msg > 0 then sync_thread_replies e cid (ts msg) else returns ())
             (\<lambda>u.
           cache_author e (user_id msg)))))"

text \<open>\<open>_sync_channel_messages\<close>: the page arrives newest first, is processed oldest
  first, and the cursor is written last, from the first entry of the page.\<close>

definition sync_channel_messages :: "env \<Rightarrow> channel \<Rightarrow> unit action" where
  "sync_channel_messages e ch =
     and_then (get_sync_state e (ch_id ch)) (\<lambda>state.
       let oldest = (case state of None \<Rightarrow> None | Some st \<Rightarrow> last_ts st);
           page = get_channel_history e (ch_id ch) oldest
       in case page of
            [] \<Rightarrow> returns ()
          | newest # older \<Rightarrow>
              and_then (for_each (sync_message e (ch_id ch) oldest) (rev page)) (\<lambda>u.
                if truthy (raw_ts newest)
                then upsert_sync_state e
                       \<lparr> ss_channel_id = ch_id ch, last_ts = raw_ts newest, last_sync_at = None \<rparr>
                else returns ()))"

text \<open>\<open>_sync_all_messages\<close>: one sync cycle (the pauses between channels are left
  out).\<close>

definition sync_all_messages :: "env \<Rightarrow> unit action" where
  "sync_all_messages e = and_then (get_all_channels e) (for_each (sync_channel_messages e))"

section \<open>Status queries (db/repository.py)\<close>

text \<open>
  The queries are relational expressions over the tables. \<open>ORDER BY created_at DESC\<close>
  puts the rows without a \<open>created_at\<close> first and then the later instants before the
  earlier ones; among rows with the same instant the order is the engine's choice,
  taken here to be the order of the table. The \<open>LIKE\<close> operator of the engine is a
  parameter (\<open>like t pattern\<close>).
\<close>

definition order_by_created_at_desc :: "('a \<Rightarrow> datetime option) \<Rightarrow> 'a list \<Rightarrow> 'a list" where
  "order_by_created_at_desc col rows =
     sort_key (\<lambda>r. case col r of None \<Rightarrow> (0 :: nat, 0 :: rat) | Some t \<Rightarrow> (1, - t)) rows"

text \<open>The condition \<open>AND m.created_at > $n\<close>, added when \<open>since\<close> is given: a row
  without a \<open>created_at\<close> does not satisfy it.\<close>

definition created_after :: "datetime option \<Rightarrow> datetime option \<Rightarrow> bool" where
  "created_after since c \<longleftrightarrow>
     (case since of
        None \<Rightarrow> True
      | Some t \<Rightarrow> (case c of None \<Rightarrow> False | Some v \<Rightarrow> t < v))"

definition get_unread_mentions ::
  "(string \<Rightarrow> string \<Rightarrow> bool) \<Rightarrow> string \<Rightarrow> datetime option \<Rightarrow> store \<Rightarrow> message list" where
  "get_unread_mentions like uid since s =
     map row_to_message
       (take 50
          (order_by_created_at_desc row_created_at
             (filter
                (\<lambda>m. (case row_text m of None \<Rightarrow> False | Some t \<Rightarrow> like t (''%<@'' @ uid @ ''>%''))
                      \<and> created_after since (row_created_at m))
                (messages s))))"

text \<open>\<open>get_dm_messages\<close>. \<open>dm_rows\<close> is its \<open>FROM ... JOIN ... WHERE\<close>: the join with
  \<open>channels\<close> keeps the rows of the channels whose type is \<open>'im'\<close>.\<close>

definition dm_rows :: "datetime option \<Rightarrow> store \<Rightarrow> message_row list" where
  "dm_rows since s =
     [m. m \<leftarrow> messages s, c \<leftarrow> channels s,
         row_channel_id m = ch_id c \<and> channel_type c = ''im''
         \<and> created_after since (row_created_at m)]"

definition get_dm_messages :: "datetime option \<Rightarrow> store \<Rightarrow> message list" where
  "get_dm_messages since s =
     map row_to_message (take 50 (order_by_created_at_desc row_created_at (dm_rows since s)))"

text \<open>\<open>get_threads_with_replies\<close>: the rows are message rows with the channel's
  name. \<open>m.user_id != $1\<close> does not hold for a row without a \<open>user_id\<close>.\<close>

definition get_threads_with_replies ::
  "string \<Rightarrow> datetime option \<Rightarrow> store \<Rightarrow> (message_row \<times> string option) list" where
  "get_threads_with_replies uid since s =
     (let user_threads =
            remdups [(row_channel_id m, case row_thread_ts m of None \<Rightarrow> row_ts m | Some t \<Rightarrow> t).
                       m \<leftarrow> messages s, row_user_id m = Some uid]
      in take 100
           (order_by_created_at_desc (\<lambda>r. row_created_at (fst r))
              [(m, ch_name c).
                 m \<leftarrow> messages s, ut \<leftarrow> user_threads,
                 row_channel_id m = fst ut \<and> (row_ts m = snd ut \<or> row_thread_ts m = Some (snd ut)),
                 c \<leftarrow> channels s,
                 row_channel_id m = ch_id c
                 \<and> (case row_user_id m of None \<Rightarrow> False | Some u \<Rightarrow> u \<noteq> uid)
                 \<and> created_after since (row_created_at m)]))"

section \<open>The status service (services/status.py)\<close>

datatype Priority = CRITICAL | HIGH | MEDIUM | LOW

fun priority_value :: "Priority \<Rightarrow> int" where
  "priority_value CRITICAL = 1"
| "priority_value HIGH = 2"
| "priority_value MEDIUM = 3"
| "priority_value LOW = 4"

record StatusItem =
  priority :: Priority
  si_channel_id :: string
  si_channel_name :: "string option"
  message_ts :: string
  si_thread_ts :: "string option"
  si_user_id :: "string option"
  si_user_name :: "string option"
  text_preview :: string
  timestamp :: "datetime option"
  link :: string
  reason :: string

text \<open>The report. The reminders, which \<open>get_status\<close> fetches on their own and does
  not merge into the items, are left out.\<close>

record Status =
  items :: "StatusItem list"
  generated_at :: datetime

text \<open>Python's \<open>xs[:n]\<close>: a negative \<open>n\<close> counts from the end.\<close>

definition py_prefix :: "int \<Rightarrow> 'a list \<Rightarrow> 'a list" where
  "py_prefix n xs = (if 0 \<le> n then take (nat n) xs else take (length xs - nat (- n)) xs)"

text \<open>\<open>StatusService._truncate\<close>.\<close>

definition truncate :: "string \<Rightarrow> int \<Rightarrow> string" where
  "truncate t max_len = (if int (length t) \<le> max_len then t else py_prefix (max_len - 3) t @ ''...'')"

text \<open>\<open>SlackClient.get_message_link\<close>.\<close>

definition get_message_link :: "string \<Rightarrow> string \<Rightarrow> string option \<Rightarrow> string" where
  "get_message_link cid mts tts =
     (let base_url = ''https://slack.com/archives/'' @ cid @ ''/p'' @ filter (\<lambda>c. c \<noteq> CHR ''.'') mts
      in case tts of
           None \<Rightarrow> base_url
         | Some t \<Rightarrow>
             if t \<noteq> [] \<and> t \<noteq> mts
             then base_url @ ''?thread_ts='' @ filter (\<lambda>c. c \<noteq> CHR ''.'') t
             else base_url)"

text \<open>\<open>user.display_name or user.name if user else None\<close>.\<close>

definition shown_name :: "user option \<Rightarrow> string option" where
  "shown_name found =
     (case found of
        None \<Rightarrow> None
      | Some u \<Rightarrow> if truthy (display_name u) then display_name u else u_name u)"

text \<open>The \<open>StatusItem(...)\<close> that \<open>_get_mentions\<close> and \<open>_get_dms\<close> build for a
  message, after looking up its channel and its author.\<close>

definition message_item :: "Priority \<Rightarrow> string \<Rightarrow> store \<Rightarrow> message \<Rightarrow> StatusItem" where
  "message_item p why s msg =
     \<lparr> priority = p,
       si_channel_id = channel_id msg,
       si_channel_name = (case find_channel (channel_id msg) s of None \<Rightarrow> None | Some c \<Rightarrow> ch_name c),
       message_ts = ts msg,
       si_thread_ts = thread_ts msg,
       si_user_id = user_id msg,
       si_user_name =
         shown_name (case user_id msg of
                       None \<Rightarrow> None
                     | Some uid \<Rightarrow> if uid \<noteq> [] then find_user uid s else None),
       text_preview = truncate (case msg_text msg of None \<Rightarrow> [] | Some t \<Rightarrow> t) 100,
       timestamp = created_at msg,
       link = get_message_link (channel_id msg) (ts msg) (thread_ts msg),
       reason = why \<rparr>"

definition get_mentions ::
  "(string \<Rightarrow> string \<Rightarrow> bool) \<Rightarrow> string \<Rightarrow> datetime \<Rightarrow> store \<Rightarrow> StatusItem list" where
  "get_mentions like me since s =
     map (message_item CRITICAL ''You were mentioned'' s) (get_unread_mentions like me (Some since) s)"

text \<open>\<open>_get_dms\<close>: the messages of \<open>get_dm_messages\<close> without those of the current
  user.\<close>

definition get_dms :: "string \<Rightarrow> datetime \<Rightarrow> store \<Rightarrow> StatusItem list" where
  "get_dms me since s =
     map (message_item HIGH ''Direct message'' s)
       (filter (\<lambda>m. user_id m \<noteq> Some me) (get_dm_messages (Some since) s))"

text \<open>The loop of \<open>_get_thread_replies\<close> of the status service: one item for each
  thread key, the first row of the key.\<close>

fun thread_items :: "store \<Rightarrow> (message_row \<times> string option) list \<Rightarrow> string list \<Rightarrow> StatusItem list" where
  "thread_items s [] seen_threads = []"
| "thread_items s ((m, channel_name) # rest) seen_threads =
     (let thread_key =
            row_channel_id m @ '':'' @
            (case row_thread_ts m of
               None \<Rightarrow> row_ts m
             | Some t \<Rightarrow> if t \<noteq> [] then t else row_ts m)
      in if thread_key \<in> set seen_threads then thread_items s rest seen_threads
         else
           \<lparr> priority = MEDIUM,
             si_channel_id = row_channel_id m,
             si_channel_name = channel_name,
             message_ts = row_ts m,
             si_thread_ts = row_thread_ts m,
             si_user_id = row_user_id m,
             si_user_name =
               shown_name (case row_user_id m of
                             None \<Rightarrow> None
                           | Some uid \<Rightarrow> if uid \<noteq> [] then find_user uid s else None),
             text_preview = truncate (case row_text m of None \<Rightarrow> [] | Some t \<Rightarrow> t) 100,
             timestamp = row_created_at m,
             link = get_message_link (row_channel_id m) (row_ts m) (row_thread_ts m),
             reason = ''Reply in thread you participated in'' \<rparr>
           # thread_items s rest (thread_key # seen_threads))"

definition status_thread_replies :: "string \<Rightarrow> datetime \<Rightarrow> store \<Rightarrow> StatusItem list" where
  "status_thread_replies me since s = thread_items s (get_threads_with_replies me (Some since) s) []"

text \<open>The key of \<open>items.sort\<close> in \<open>get_status\<close>:
  \<open>(x.priority.value, -(x.timestamp.timestamp() if x.timestamp else 0))\<close>.\<close>

definition sort_key_of :: "StatusItem \<Rightarrow> int \<times> rat" where
  "sort_key_of x = (priority_value (priority x), - (case timestamp x of None \<Rightarrow> 0 | Some t \<Rightarrow> t))"

text \<open>
  \<open>get_status\<close>, for the client's \<open>user_id\<close>, the instant \<open>datetime.now()\<close> and
  \<open>hours_back\<close>. Python's \<open>list.sort\<close> is stable, as \<open>sort_key\<close> is. The queries are
  taken to return: a report exists only then.
\<close>

definition get_status ::
  "(string \<Rightarrow> string \<Rightarrow> bool) \<Rightarrow> string option \<Rightarrow> datetime \<Rightarrow> int \<Rightarrow> store \<Rightarrow> error + Status" where
  "get_status like client_user_id now hours_back s =
     (case client_user_id of
        None \<Rightarrow> Inl RuntimeError
      | Some me \<Rightarrow>
          if me = [] then Inl RuntimeError
          else
            (let since = now - of_int hours_back * 3600;
                 mentions = get_mentions like me since s;
                 dms = get_dms me since s;
                 threads = status_thread_replies me since s
             in Inr \<lparr> items = sort_key sort_key_of (mentions @ dms @ threads),
                      generated_at = now \<rparr>))"

section \<open>The search service (services/search.py)\<close>

record SearchResult =
  sr_message :: message
  sr_channel_name :: "string option"
  sr_user_name :: "string option"
  score :: rat
  sr_link :: string
  match_type :: string

text \<open>
  \<open>re.search(re.escape(query), text, re.IGNORECASE)\<close>: the start of the first
  occurrence of the query in the text, letters compared without their case. The
  model is for ASCII text, where ignoring case is folding \<open>A\<close> to \<open>Z\<close>.
\<close>

definition ascii_lower :: "char \<Rightarrow> char" where
  "ascii_lower c =
     (case map_of (zip ''ABCDEFGHIJKLMNOPQRSTUVWXYZ'' ''abcdefghijklmnopqrstuvwxyz'') c of
        None \<Rightarrow> c
      | Some l \<Rightarrow> l)"

definition matches_here :: "string \<Rightarrow> string \<Rightarrow> bool" where
  "matches_here query t \<longleftrightarrow>
     length query \<le> length t \<and> map ascii_lower (take (length query) t) = map ascii_lower query"

fun re_search :: "string \<Rightarrow> string \<Rightarrow> nat \<Rightarrow> nat option" where
  "re_search query [] pos = (if query = [] then Some pos else None)"
| "re_search query (c # cs) pos =
     (if matches_here query (c # cs) then Some pos else re_search query cs (Suc pos))"

text \<open>The score of \<open>_text_search\<close>:
  \<open>1.0 - (match.start() / len(text)) if match and text else 0.5\<close>, with
  \<open>text = message.text or ''\<close>.\<close>

definition text_score :: "string \<Rightarrow> string option \<Rightarrow> rat" where
  "text_score query stored =
     (let t = (case stored of None \<Rightarrow> [] | Some v \<Rightarrow> v)
      in case re_search query t 0 of
           None \<Rightarrow> 1 / 2
         | Some start \<Rightarrow> if t \<noteq> [] then 1 - of_nat start / of_nat (length t) else 1 / 2)"

text \<open>
  The query of \<open>_text_search\<close>: the two \<open>LEFT JOIN\<close>s give a row its channel's name
  and its author's display name, or nothing where there is no such channel or user.
  The engine's \<open>ILIKE\<close> is a parameter, and the engine refuses a negative \<open>LIMIT\<close>.
\<close>

definition text_search_rows ::
  "(string \<Rightarrow> string \<Rightarrow> bool) \<Rightarrow> string \<Rightarrow> store \<Rightarrow> (message_row \<times> string option \<times> string option) list" where
  "text_search_rows ilike query s =
     order_by_created_at_desc (\<lambda>r. row_created_at (fst r))
       [(m, cn, un).
          m \<leftarrow> messages s,
          (case row_text m of None \<Rightarrow> False | Some t \<Rightarrow> ilike t (''%'' @ query @ ''%'')),
          cn \<leftarrow> (case filter (\<lambda>c. ch_id c = row_channel_id m) (channels s) of
                   [] \<Rightarrow> [None] | cs \<Rightarrow> map ch_name cs),
          un \<leftarrow> (case filter (\<lambda>u. Some (u_id u) = row_user_id m) (users s) of
                   [] \<Rightarrow> [None] | us \<Rightarrow> map display_name us)]"

definition text_search ::
  "(string \<Rightarrow> string \<Rightarrow> bool) \<Rightarrow> string \<Rightarrow> int \<Rightarrow> store \<Rightarrow> error + SearchResult list" where
  "text_search ilike query limit s =
     (if limit < 0 then Inl StorageError
      else
        Inr (map (\<lambda>(m, cn, un).
                    \<lparr> sr_message = row_to_message m,
                      sr_channel_name = cn,
                      sr_user_name = un,
                      score = text_score query (row_text m),
                      sr_link = get_message_link (row_channel_id m) (row_ts m) (row_thread_ts m),
                      match_type = ''text'' \<rparr>)
               (take (nat limit) (text_search_rows ilike query s))))"

text \<open>
  A match of the remote search as \<open>_slack_api_search\<close> reads it: \<open>match_channel_id\<close>
  and \<open>match_channel_name\<close> are the \<open>id\<close> and \<open>name\<close> of the \<open>channel\<close> dict, the
  score is a number when the key is there.
\<close>

record api_match =
  match_channel_id :: "string option"
  match_channel_name :: "string option"
  match_ts :: "string option"
  match_user :: "string option"
  match_text :: "string option"
  match_thread_ts :: "string option"
  match_username :: "string option"
  match_score :: "rat option"
  match_permalink :: "string option"

text \<open>
  What the search service is given: whether there is an embedding service, what
  \<open>_vector_search\<close> returns or raises for a query and a limit (its rows come from the
  table \<open>message_embeddings\<close> and the engine's vector distance, which the store of the
  model does not have), the matches that \<open>SlackClient.search_messages\<close> returns, the
  conversion \<open>datetime.fromtimestamp(float(ts))\<close> of \<open>_slack_api_search\<close> (the instant,
  or the exception, which nothing catches there), and the engine's \<open>ILIKE\<close>.
\<close>

record search_env =
  embedding_service :: bool
  vector_search :: "string \<Rightarrow> int \<Rightarrow> error + SearchResult list"
  search_messages :: "string \<Rightarrow> int \<Rightarrow> api_match list"
  api_fromtimestamp :: "string \<Rightarrow> error + datetime"
  ilike :: "string \<Rightarrow> string \<Rightarrow> bool"

text \<open>The loop of \<open>_slack_api_search\<close> over the matches, and the method: the first
  \<open>ts\<close> that is not empty and that the conversion refuses makes it raise.\<close>

fun api_results :: "(string \<Rightarrow> error + datetime) \<Rightarrow> api_match list \<Rightarrow> error + SearchResult list" where
  "api_results convert [] = Inr []"
| "api_results convert (m # rest) =
     (case (case match_ts m of
              None \<Rightarrow> Inr None
            | Some t \<Rightarrow>
                if t \<noteq> []
                then (case convert t of Inl err \<Rightarrow> Inl err | Inr d \<Rightarrow> Inr (Some d))
                else Inr None) of
        Inl err \<Rightarrow> Inl err
      | Inr created \<Rightarrow>
          (case api_results convert rest of
             Inl err \<Rightarrow> Inl err
           | Inr results \<Rightarrow>
               Inr (\<lparr> sr_message =
                        \<lparr> msg_id = None,
                          channel_id = (case match_channel_id m of None \<Rightarrow> [] | Some v \<Rightarrow> v),
                          ts = (case match_ts m of None \<Rightarrow> [] | Some v \<Rightarrow> v),
                          user_id = match_user m,
                          msg_text = match_text m,
                          thread_ts = match_thread_ts m,
                          reply_count = 0,
                          is_edited = False,
                          message_type = ''message'',
                          created_at = created,
                          updated_at = None,
                          metadata = [] \<rparr>,
                      sr_channel_name = match_channel_name m,
                      sr_user_name = match_username m,
                      score = (case match_score m of None \<Rightarrow> 1 / 2 | Some v \<Rightarrow> v),
                      sr_link =
                        (case match_permalink m of
                           None \<Rightarrow>
                             get_message_link (case match_channel_id m of None \<Rightarrow> [] | Some v \<Rightarrow> v)
                               (case match_ts m of None \<Rightarrow> [] | Some v \<Rightarrow> v) None
                         | Some l \<Rightarrow> l),
                      match_type = ''slack_api'' \<rparr>
                    # results)))"

definition slack_api_search :: "search_env \<Rightarrow> string \<Rightarrow> int \<Rightarrow> error + SearchResult list" where
  "slack_api_search se query limit = api_results (api_fromtimestamp se) (search_messages se query limit)"

text \<open>The loop of \<open>search\<close> over the sorted results, with the set \<open>seen\<close> of the keys
  \<open>f'{channel_id}:{ts}'\<close>.\<close>

definition result_key :: "SearchResult \<Rightarrow> string" where
  "result_key r = channel_id (sr_message r) @ '':'' @ ts (sr_message r)"

fun unique_results :: "SearchResult list \<Rightarrow> string list \<Rightarrow> SearchResult list" where
  "unique_results [] seen = []"
| "unique_results (r # rest) seen =
     (if result_key r \<in> set seen then unique_results rest seen
      else r # unique_results rest (result_key r # seen))"

text \<open>\<open>search\<close>. The sources run in the order vector, text, remote API, and the first
  exception leaves the method. \<open>sorted(results, key=lambda r: r.score, reverse=True)\<close>
  is stable: results with the same score keep their order.\<close>

definition search ::
  "search_env \<Rightarrow> string \<Rightarrow> int \<Rightarrow> bool \<Rightarrow> bool \<Rightarrow> bool \<Rightarrow> store \<Rightarrow> error + SearchResult list" where
  "search se query limit use_vector use_text use_slack_api s =
     (case (if use_vector \<and> embedding_service se then vector_search se query limit else Inr []) of
        Inl err \<Rightarrow> Inl err
      | Inr vector_results \<Rightarrow>
          (case (if use_text then text_search (ilike se) query limit s else Inr []) of
             Inl err \<Rightarrow> Inl err
           | Inr text_results \<Rightarrow>
               (case (if use_slack_api then slack_api_search se query limit else Inr []) of
                  Inl err \<Rightarrow> Inl err
                | Inr api_found \<Rightarrow>
                    (let results = vector_results @ text_results @ api_found
                     in Inr (py_prefix limit
                               (unique_results (sort_key (\<lambda>r. - score r) results) []))))))"

section \<open>The combination policy in the spec's words\<close>

text \<open>Deduplicate by a key, keeping the first occurrence of each key: what the spec
  asks of \<open>search\<close>, to be compared with the loop \<open>unique_results\<close> of the source.\<close>

function keep_first_by :: "('a \<Rightarrow> 'k) \<Rightarrow> 'a list \<Rightarrow> 'a list" where
  "keep_first_by key [] = []"
| "keep_first_by key (x # xs) = x # keep_first_by key (filter (\<lambda>y. key y \<noteq> key x) xs)"
  by pat_completeness auto
termination
  by (relation "measure (\<lambda>(key, xs). length xs)") (auto simp: less_Suc_eq_le)

text \<open>The key of the spec: the pair \<open>(channel_id, ts)\<close>.\<close>

definition result_pair :: "SearchResult \<Rightarrow> string \<times> string" where
  "result_pair r = (channel_id (sr_message r), ts (sr_message r))"

section \<open>What the claims observe\<close>

text \<open>The cursor of a channel: the \<open>last_ts\<close> that the next sync of the channel reads
  as \<open>oldest\<close> (lines 112 and 113 of the poller).\<close>

definition stored_cursor :: "string \<Rightarrow> store \<Rightarrow> string option" where
  "stored_cursor cid s =
     (case find (\<lambda>r. ss_channel_id r = cid) (sync_state s) of None \<Rightarrow> None | Some st \<Rightarrow> last_ts st)"

text \<open>The reaction rows of a message as triples \<open>(message_id, emoji_name, user_id)\<close>,
  and the triples of a fetched snapshot.\<close>

definition stored_rows :: "int \<Rightarrow> store \<Rightarrow> (int \<times> string \<times> string) list" where
  "stored_rows message_id s =
     map (\<lambda>r. (rx_message_id r, rx_name r, rx_user_id r))
       (filter (\<lambda>r. rx_message_id r = message_id) (reactions s))"

definition snapshot_rows :: "int \<Rightarrow> reaction_data list \<Rightarrow> (int \<times> string \<times> string) list" where
  "snapshot_rows message_id snapshot =
     concat (map (\<lambda>reaction.
                    map (\<lambda>uid. (message_id,
                                 (case reaction_name reaction of None \<Rightarrow> [] | Some n \<Rightarrow> n), uid))
                      (case reaction_users reaction of None \<Rightarrow> [] | Some us \<Rightarrow> us))
               snapshot)"

section \<open>The keys a sync writes\<close>

text \<open>
  The list of the stored keys \<open>(channel_id, ts)\<close>, and the keys that the sync of a
  message, and of a channel from a cursor, upserts in order: the message's own key
  unless it is skipped, then the keys of its thread's replies when it is a thread
  parent. A channel is covered when the store holds every key that its next sync
  would upsert.
\<close>

definition key_list :: "store \<Rightarrow> (string \<times> string) list" where
  "key_list s = map message_key (messages s)"

definition add_key :: "'k list \<Rightarrow> 'k \<Rightarrow> 'k list" where
  "add_key ks k = (if k \<in> set ks then ks else ks @ [k])"

definition raw_key :: "env \<Rightarrow> string \<Rightarrow> slack_msg \<Rightarrow> string \<times> string" where
  "raw_key e cid m = (cid, ts (from_slack (fromtimestamp e) cid m))"

definition message_keys :: "env \<Rightarrow> string \<Rightarrow> string option \<Rightarrow> slack_msg \<Rightarrow> (string \<times> string) list" where
  "message_keys e cid oldest m =
     (let msg = from_slack (fromtimestamp e) cid m
      in if already_seen oldest (ts msg) then []
         else raw_key e cid m #
              (if reply_count msg > 0 then map (raw_key e cid) (get_thread_replies e cid (ts msg))
               else []))"

definition channel_keys :: "env \<Rightarrow> string \<Rightarrow> string option \<Rightarrow> (string \<times> string) list" where
  "channel_keys e cid oldest =
     concat (map (message_keys e cid oldest) (rev (get_channel_history e cid oldest)))"

definition covered :: "env \<Rightarrow> string \<Rightarrow> store \<Rightarrow> bool" where
  "covered e cid s \<longleftrightarrow> set (channel_keys e cid (stored_cursor cid s)) \<subseteq> set (key_list s)"

section \<open>Sample data\<close>

text \<open>A channel, a message of the remote, and a remote that holds a list of messages
  (newest first) and answers a fetch with those strictly newer than the bound; the
  store is empty, or holds the message \<open>100.000001\<close> with one reaction.\<close>

definition sample_message :: "string \<Rightarrow> slack_msg" where
  "sample_message t =
     \<lparr> raw_ts = Some t, raw_user = Some ''U2'', raw_text = Some ''hello'', raw_thread_ts = None,
       raw_reply_count = None, raw_edited = False, raw_type = None, raw_reactions = None,
       raw_other = [] \<rparr>"

definition remote_with :: "slack_msg list \<Rightarrow> (statement \<Rightarrow> bool) \<Rightarrow> env" where
  "remote_with msgs fails =
     \<lparr> get_channel_history =
         (\<lambda>cid oldest. case oldest of
                          None \<Rightarrow> msgs
                        | Some t \<Rightarrow> filter (\<lambda>m. case raw_ts m of None \<Rightarrow> False | Some n \<Rightarrow> t < n) msgs),
       conversations_replies = (\<lambda>cid t. Inr None),
       get_user_info = (\<lambda>uid. None),
       fromtimestamp = (\<lambda>t. None),
       engine_raises = fails \<rparr>"

definition sample_channel :: channel where
  "sample_channel =
     \<lparr> ch_id = ''C1'', ch_name = Some ''general'', channel_type = ''public_channel'',
       is_archived = False, ch_created_at = None, ch_updated_at = None, ch_metadata = [] \<rparr>"

definition sample_store :: store where
  "sample_store =
     \<lparr> channels = [sample_channel], users = [], messages = [], reactions = [], sync_state = [],
       next_message_id = 1, next_reaction_id = 1, clock = 0 \<rparr>"

definition hello_row :: message_row where
  "hello_row =
     \<lparr> row_id = 1, row_channel_id = ''C1'', row_ts = ''100.000001'', row_user_id = Some ''U2'',
       row_text = Some ''hello'', row_thread_ts = None, row_reply_count = 0, row_is_edited = False,
       row_message_type = ''message'', row_created_at = Some 100, row_updated_at = Some 0,
       row_metadata = [] \<rparr>"

definition hello_store :: store where
  "hello_store =
     \<lparr> channels = [sample_channel], users = [], messages = [hello_row],
       reactions = [\<lparr> rx_id = 1, rx_message_id = 1, rx_name = ''+1'', rx_user_id = ''U9'',
                      rx_created_at = 0 \<rparr>],
       sync_state = [], next_message_id = 2, next_reaction_id = 2, clock = 5 \<rparr>"

definition rejects_ts :: "string \<Rightarrow> statement \<Rightarrow> bool" where
  "rejects_ts t st = (case st of UpsertMessage m \<Rightarrow> ts m = t | _ \<Rightarrow> False)"

definition two_message_page :: "slack_msg list" where
  "two_message_page = [sample_message ''200.000002'', sample_message ''100.000001'']"

text \<open>Scenario C of the spec: the thread of the message \<open>200.0\<close>, the parent and two
  replies.\<close>

definition thread_page :: "slack_msg list" where
  "thread_page =
     [(sample_message ''200.0'')\<lparr> raw_thread_ts := Some ''200.0'', raw_reply_count := Some 2 \<rparr>,
      (sample_message ''200.1'')\<lparr> raw_thread_ts := Some ''200.0'' \<rparr>,
      (sample_message ''200.2'')\<lparr> raw_thread_ts := Some ''200.0'' \<rparr>]"

definition thread_remote :: env where
  "thread_remote =
     (remote_with [(sample_message ''200.0'')\<lparr> raw_thread_ts := Some ''200.0'',
                                                raw_reply_count := Some 2 \<rparr>] (\<lambda>st. False))
       \<lparr> conversations_replies := (\<lambda>cid t. Inr (Some thread_page)) \<rparr>"

text \<open>A store with a direct channel \<open>D1\<close> and a group channel \<open>G1\<close> for the status
  report of \<open>U1\<close>, and a \<open>LIKE\<close> that finds the one mention.\<close>

definition dm_channel :: "string \<Rightarrow> string \<Rightarrow> channel" where
  "dm_channel cid kind =
     \<lparr> ch_id = cid, ch_name = None, channel_type = kind, is_archived = False,
       ch_created_at = None, ch_updated_at = None, ch_metadata = [] \<rparr>"

definition dm_row :: "int \<Rightarrow> string \<Rightarrow> string \<Rightarrow> string \<Rightarrow> string \<Rightarrow> string option \<Rightarrow> datetime \<Rightarrow> message_row" where
  "dm_row i cid t author body parent created =
     \<lparr> row_id = i, row_channel_id = cid, row_ts = t, row_user_id = Some author,
       row_text = Some body, row_thread_ts = parent, row_reply_count = 0, row_is_edited = False,
       row_message_type = ''message'', row_created_at = Some created, row_updated_at = Some created,
       row_metadata = [] \<rparr>"

definition dm_store :: store where
  "dm_store =
     \<lparr> channels = [dm_channel ''D1'' ''im'', dm_channel ''G1'' ''mpim''],
       users = [],
       messages =
         [dm_row 1 ''D1'' ''100.000001'' ''U2'' ''ping'' None 100,
          dm_row 2 ''G1'' ''110.000001'' ''U3'' ''hi <@U1>'' None 110,
          dm_row 3 ''D1'' ''120.000001'' ''U1'' ''pong'' None 120,
          dm_row 4 ''D1'' ''130.000001'' ''U2'' ''ok'' (Some ''120.000001'') 130],
       reactions = [], sync_state = [], next_message_id = 5, next_reaction_id = 1, clock = 200 \<rparr>"

definition sample_like :: "string \<Rightarrow> string \<Rightarrow> bool" where
  "sample_like t pattern \<longleftrightarrow> pattern = ''%<@U1>%'' \<and> t = ''hi <@U1>''"

text \<open>A store with one message for the text search, matches of the remote search,
  and a search service without embeddings whose \<open>ILIKE\<close> accepts every row and whose
  remote search answers with the given matches.\<close>

definition text_row :: "int \<Rightarrow> string \<Rightarrow> string \<Rightarrow> message_row" where
  "text_row i t body =
     \<lparr> row_id = i, row_channel_id = ''C1'', row_ts = t, row_user_id = Some ''U2'',
       row_text = Some body, row_thread_ts = None, row_reply_count = 0, row_is_edited = False,
       row_message_type = ''message'', row_created_at = Some 100, row_updated_at = Some 100,
       row_metadata = [] \<rparr>"

definition text_store :: "string \<Rightarrow> store" where
  "text_store body = sample_store\<lparr> messages := [text_row 1 ''100.000001'' body], next_message_id := 2 \<rparr>"

definition api_hit :: "string \<Rightarrow> string \<Rightarrow> rat \<Rightarrow> api_match" where
  "api_hit cid t sc =
     \<lparr> match_channel_id = Some cid, match_channel_name = None, match_ts = Some t,
       match_user = None, match_text = Some ''deploy done'', match_thread_ts = None,
       match_username = None, match_score = Some sc, match_permalink = None \<rparr>"

definition api_only :: "api_match list \<Rightarrow> search_env" where
  "api_only hits =
     \<lparr> embedding_service = False, vector_search = (\<lambda>q l. Inr []), search_messages = (\<lambda>q l. hits),
       api_fromtimestamp =
         (\<lambda>t. if t = ''100.000001'' then Inr (100000001 / 1000000)
              else if t = ''300.000001'' then Inr (300000001 / 1000000)
              else Inl ValueError),
       ilike = (\<lambda>t pattern. True) \<rparr>"

text \<open>A remote that answers a fetch with the messages at or after the bound.\<close>

definition inclusive_remote :: "slack_msg list \<Rightarrow> env" where
  "inclusive_remote msgs =
     (remote_with msgs (\<lambda>st. False))
       \<lparr> get_channel_history :=
           (\<lambda>cid oldest. case oldest of
                            None \<Rightarrow> msgs
                          | Some t \<Rightarrow> filter (\<lambda>m. case raw_ts m of None \<Rightarrow> False | Some n \<Rightarrow> t \<le> n) msgs) \<rparr>"

section \<open>Properties\<close>

lemmas sample_defs = sample_message_def remote_with_def sample_channel_def sample_store_def
  hello_row_def hello_store_def rejects_ts_def two_message_page_def

lemmas model_defs = from_slack_def returns_def raises_def and_then_def same_key_def
  conflict_update_def inserted_row_def upsert_message_def insert_reaction_def upsert_reactions_def
  get_sync_state_def upsert_sync_state_def find_user_def get_user_def upsert_user_def
  get_all_channels_def get_thread_replies_def empty_dict_def ensure_user_cached_def
  store_reactions_def cache_author_def sync_reply_def sync_thread_replies_def already_seen_def
  sync_message_def sync_channel_messages_def sync_all_messages_def stored_cursor_def
  stored_rows_def snapshot_rows_def message_key_def Let_def

subsection \<open>Rows with a unique key\<close>

lemma find_unique:
  assumes "distinct (map f xs)" "i < length xs" "P (xs ! i)"
    and "\<And>x y. P x \<Longrightarrow> P y \<Longrightarrow> f x = f y"
  shows "find P xs = Some (xs ! i)"
proof -
  have "\<exists>x\<in>set xs. P x" using assms(2,3) by auto
  then obtain r where r: "find P xs = Some r"
    by (cases "find P xs") (auto simp: find_None_iff)
  then obtain j where j: "j < length xs" "P (xs ! j)" "r = xs ! j"
    by (auto simp: find_Some_iff)
  have "f (xs ! j) = f (xs ! i)"
    using assms(4)[OF j(2) assms(3)] .
  moreover have "\<forall>a<length xs. \<forall>b<length xs. a \<noteq> b \<longrightarrow> f (xs ! a) \<noteq> f (xs ! b)"
    using assms(1) by (simp add: distinct_conv_nth)
  ultimately have "j = i"
    using j(1) assms(2) by blast
  then show ?thesis using r j by simp
qed

lemma same_key_message_key:
  "same_key message x \<Longrightarrow> same_key message y \<Longrightarrow> message_key x = message_key y"
  by (simp add: same_key_def message_key_def)

lemma same_key_unique_index:
  assumes "distinct (map message_key rows)" "i < length rows" "j < length rows"
    and "same_key message (rows ! i)" "same_key message (rows ! j)"
  shows "j = i"
proof -
  have "message_key (rows ! j) = message_key (rows ! i)"
    using same_key_message_key[OF assms(5,4)] .
  moreover have "\<forall>a<length rows. \<forall>b<length rows. a \<noteq> b \<longrightarrow> message_key (rows ! a) \<noteq> message_key (rows ! b)"
    using assms(1) by (simp add: distinct_conv_nth)
  ultimately show ?thesis
    using assms(2,3) by blast
qed

text \<open>
  C10. Re-upserting a message whose \<open>(channel_id, ts)\<close> key is already stored (row \<open>i\<close>,
  under the unique constraint) returns the id of that row, changes no other row and
  adds none; in the row itself \<open>id\<close>, \<open>channel_id\<close>, \<open>ts\<close>, \<open>created_at\<close> (and
  \<open>message_type\<close>) keep their values, and \<open>user_id\<close>, \<open>text\<close>, \<open>thread_ts\<close>,
  \<open>reply_count\<close>, \<open>is_edited\<close>, \<open>updated_at\<close> and \<open>metadata\<close> take those of the
  message (\<open>updated_at\<close> the engine's \<open>NOW()\<close>).
\<close>

theorem upsert_message_conflict_frame:
  assumes uniq: "distinct (map message_key (messages s))"
    and i: "i < length (messages s)"
    and key: "same_key message (messages s ! i)"
    and ok: "\<not> engine_raises e (UpsertMessage message)"
  shows "fst (upsert_message e message s) = Inr (row_id (messages s ! i))
    \<and> length (messages (snd (upsert_message e message s))) = length (messages s)
    \<and> (\<forall>j < length (messages s). j \<noteq> i \<longrightarrow>
          messages (snd (upsert_message e message s)) ! j = messages s ! j)
    \<and> row_id (messages (snd (upsert_message e message s)) ! i) = row_id (messages s ! i)
    \<and> row_channel_id (messages (snd (upsert_message e message s)) ! i) = row_channel_id (messages s ! i)
    \<and> row_ts (messages (snd (upsert_message e message s)) ! i) = row_ts (messages s ! i)
    \<and> row_created_at (messages (snd (upsert_message e message s)) ! i) = row_created_at (messages s ! i)
    \<and> row_message_type (messages (snd (upsert_message e message s)) ! i) = row_message_type (messages s ! i)
    \<and> row_user_id (messages (snd (upsert_message e message s)) ! i) = user_id message
    \<and> row_text (messages (snd (upsert_message e message s)) ! i) = msg_text message
    \<and> row_thread_ts (messages (snd (upsert_message e message s)) ! i) = thread_ts message
    \<and> row_reply_count (messages (snd (upsert_message e message s)) ! i) = reply_count message
    \<and> row_is_edited (messages (snd (upsert_message e message s)) ! i) = is_edited message
    \<and> row_updated_at (messages (snd (upsert_message e message s)) ! i) = Some (clock s)
    \<and> row_metadata (messages (snd (upsert_message e message s)) ! i) = metadata message"
proof -
  have f: "find (same_key message) (messages s) = Some (messages s ! i)"
    using find_unique[where P = "same_key message" and f = message_key, OF uniq i key]
      same_key_message_key by blast
  have other: "\<not> same_key message (messages s ! j)" if "j < length (messages s)" "j \<noteq> i" for j
    using same_key_unique_index[OF uniq i that(1) key] that(2) by blast
  show ?thesis
    using f ok i key other by (simp add: upsert_message_def conflict_update_def)
qed

theorem upsert_message_conflict_frame_witness:
  "fst (upsert_message (remote_with [] (\<lambda>st. False))
          (from_slack (\<lambda>t. None) ''C1''
             ((sample_message ''100.000001'')\<lparr> raw_text := Some ''hello, world'', raw_edited := True \<rparr>))
          hello_store) = Inr 1
   \<and> row_text (messages (snd (upsert_message (remote_with [] (\<lambda>st. False))
          (from_slack (\<lambda>t. None) ''C1''
             ((sample_message ''100.000001'')\<lparr> raw_text := Some ''hello, world'', raw_edited := True \<rparr>))
          hello_store)) ! 0) = Some ''hello, world''
   \<and> row_created_at (messages (snd (upsert_message (remote_with [] (\<lambda>st. False))
          (from_slack (\<lambda>t. None) ''C1''
             ((sample_message ''100.000001'')\<lparr> raw_text := Some ''hello, world'', raw_edited := True \<rparr>))
          hello_store)) ! 0) = Some 100
   \<and> created_at (from_slack (\<lambda>t. None) ''C1''
             ((sample_message ''100.000001'')\<lparr> raw_text := Some ''hello, world'', raw_edited := True \<rparr>))
       = None"
proof -
  let ?e = "remote_with [] (\<lambda>st. False)"
  let ?m = "from_slack (\<lambda>t. None) ''C1''
             ((sample_message ''100.000001'')\<lparr> raw_text := Some ''hello, world'', raw_edited := True \<rparr>)"
  have h1: "distinct (map message_key (messages hello_store))"
    by (simp add: sample_defs)
  have h2: "0 < length (messages hello_store)"
    by (simp add: sample_defs)
  have h3: "same_key ?m (messages hello_store ! 0)"
    by (simp add: sample_defs model_defs)
  have h4: "\<not> engine_raises ?e (UpsertMessage ?m)"
    by (simp add: sample_defs)
  from upsert_message_conflict_frame[OF h1 h2 h3 h4] show ?thesis
    by (simp add: sample_defs model_defs)
qed

subsection \<open>What an operation leaves unchanged\<close>

lemma and_then_keeps:
  assumes "\<And>s. f (snd (m s)) = f s" and "\<And>a s. f (snd (g a s)) = f s"
  shows "f (snd (and_then m g s)) = f s"
proof (cases "m s")
  case (Pair r s1)
  have "f s1 = f s" using assms(1)[of s] Pair by simp
  then show ?thesis using Pair assms(2) by (cases r) (simp_all add: and_then_def)
qed

lemma for_each_keeps:
  assumes "\<And>x s. f (snd (body x s)) = f s"
  shows "f (snd (for_each body xs s)) = f s"
proof (induction xs arbitrary: s)
  case Nil
  show ?case by simp
next
  case (Cons x xs)
  obtain r s1 where b: "body x s = (r, s1)" by (cases "body x s")
  have "f s1 = f s" using assms[of x s] b by simp
  then show ?case using b Cons.IH[of s1] by (cases r) simp_all
qed

lemma returns_keeps: "f (snd (returns a s)) = f s"
  by (simp add: returns_def)

lemma raises_keeps: "f (snd (raises a s)) = f s"
  by (simp add: raises_def)

lemma get_user_keeps: "snd (get_user e u s) = s"
  by (simp add: get_user_def)

text \<open>Frames, for any observation \<open>f\<close> of the store that does not read what the
  operation writes.\<close>

lemma upsert_message_frame:
  assumes "\<And>s v. f (s\<lparr>messages := v\<rparr>) = f s" "\<And>s v. f (s\<lparr>next_message_id := v\<rparr>) = f s"
  shows "f (snd (upsert_message e m s)) = f s"
  by (simp add: upsert_message_def assms split: option.splits)

lemma insert_reaction_frame:
  assumes "\<And>s v. f (s\<lparr>reactions := v\<rparr>) = f s" "\<And>s v. f (s\<lparr>next_reaction_id := v\<rparr>) = f s"
  shows "f (snd (insert_reaction e i n u s)) = f s"
  by (simp add: insert_reaction_def assms)

lemma upsert_reactions_frame:
  assumes "\<And>s v. f (s\<lparr>reactions := v\<rparr>) = f s" "\<And>s v. f (s\<lparr>next_reaction_id := v\<rparr>) = f s"
  shows "f (snd (upsert_reactions e i rs s)) = f s"
proof -
  have "f (snd (for_each (\<lambda>reaction.
             for_each (insert_reaction e i
                         (case reaction_name reaction of None \<Rightarrow> [] | Some n \<Rightarrow> n))
               (case reaction_users reaction of None \<Rightarrow> [] | Some us \<Rightarrow> us)) rs s')) = f s'" for s'
    by (rule for_each_keeps, rule for_each_keeps, rule insert_reaction_frame) (rule assms)+
  then show ?thesis by (simp add: upsert_reactions_def assms)
qed

lemma store_reactions_frame:
  assumes "\<And>s v. f (s\<lparr>reactions := v\<rparr>) = f s" "\<And>s v. f (s\<lparr>next_reaction_id := v\<rparr>) = f s"
  shows "f (snd (store_reactions e i snap s)) = f s"
  by (simp add: store_reactions_def returns_keeps upsert_reactions_frame[of f, OF assms]
        split: option.splits)

lemma upsert_user_frame:
  assumes "\<And>s v. f (s\<lparr>users := v\<rparr>) = f s"
  shows "f (snd (upsert_user e u s)) = f s"
  by (simp add: upsert_user_def assms)

lemma ensure_user_cached_frame:
  assumes "\<And>s v. f (s\<lparr>users := v\<rparr>) = f s"
  shows "f (snd (ensure_user_cached e u s)) = f s"
  unfolding ensure_user_cached_def
  by (rule and_then_keeps)
     (simp_all add: get_user_keeps returns_keeps raises_keeps upsert_user_frame[of f, OF assms]
        split: option.splits)

lemma cache_author_frame:
  assumes "\<And>s v. f (s\<lparr>users := v\<rparr>) = f s"
  shows "f (snd (cache_author e a s)) = f s"
  by (simp add: cache_author_def returns_keeps ensure_user_cached_frame[of f, OF assms]
        split: option.splits)

lemma sync_reply_frame:
  assumes "\<And>s v. f (s\<lparr>messages := v\<rparr>) = f s" "\<And>s v. f (s\<lparr>next_message_id := v\<rparr>) = f s"
    "\<And>s v. f (s\<lparr>reactions := v\<rparr>) = f s" "\<And>s v. f (s\<lparr>next_reaction_id := v\<rparr>) = f s"
    "\<And>s v. f (s\<lparr>users := v\<rparr>) = f s"
  shows "f (snd (sync_reply e c r s)) = f s"
  unfolding sync_reply_def Let_def
  by (intro and_then_keeps upsert_message_frame store_reactions_frame cache_author_frame assms)

lemma sync_thread_replies_frame:
  assumes "\<And>s v. f (s\<lparr>messages := v\<rparr>) = f s" "\<And>s v. f (s\<lparr>next_message_id := v\<rparr>) = f s"
    "\<And>s v. f (s\<lparr>reactions := v\<rparr>) = f s" "\<And>s v. f (s\<lparr>next_reaction_id := v\<rparr>) = f s"
    "\<And>s v. f (s\<lparr>users := v\<rparr>) = f s"
  shows "f (snd (sync_thread_replies e c t s)) = f s"
  unfolding sync_thread_replies_def
  by (rule for_each_keeps) (rule sync_reply_frame[of f, OF assms])

lemma sync_message_frame:
  assumes "\<And>s v. f (s\<lparr>messages := v\<rparr>) = f s" "\<And>s v. f (s\<lparr>next_message_id := v\<rparr>) = f s"
    "\<And>s v. f (s\<lparr>reactions := v\<rparr>) = f s" "\<And>s v. f (s\<lparr>next_reaction_id := v\<rparr>) = f s"
    "\<And>s v. f (s\<lparr>users := v\<rparr>) = f s"
  shows "f (snd (sync_message e c oldest m s)) = f s"
proof -
  let ?msg = "from_slack (fromtimestamp e) c m"
  have t: "f (snd ((if reply_count ?msg > 0 then sync_thread_replies e c (ts ?msg) else returns ()) s'))
      = f s'" for s'
    by (simp add: sync_thread_replies_frame[of f, OF assms] returns_keeps)
  show ?thesis
    unfolding sync_message_def Let_def
    by (cases "already_seen oldest (ts ?msg)")
       (simp_all add: returns_keeps and_then_keeps upsert_message_frame[of f, OF assms(1,2)]
          store_reactions_frame[of f, OF assms(3,4)] cache_author_frame[of f, OF assms(5)] t)
qed

lemma sync_message_sync_state: "sync_state (snd (sync_message e c oldest m s)) = sync_state s"
  by (rule sync_message_frame) simp_all

lemma store_reactions_messages: "messages (snd (store_reactions e i snap s)) = messages s"
  by (rule store_reactions_frame) simp_all

lemma cache_author_messages: "messages (snd (cache_author e a s)) = messages s"
  by (rule cache_author_frame) simp_all

subsection \<open>The cursor\<close>

lemma find_map_same_key:
  assumes "\<And>r. k (upd r) = k r"
  shows "find (\<lambda>r. k r = c) (map (\<lambda>r. if k r = c0 then upd r else r) xs)
       = map_option (\<lambda>r. if k r = c0 then upd r else r) (find (\<lambda>r. k r = c) xs)"
  by (induction xs) (simp_all add: assms)

lemma find_append_case:
  "find P (xs @ ys) = (case find P xs of None \<Rightarrow> find P ys | Some x \<Rightarrow> Some x)"
  by (induction xs) simp_all

lemma find_None_list_ex: "\<not> list_ex P xs \<Longrightarrow> find P xs = None"
  by (simp add: find_None_iff list_ex_iff)

lemma stored_cursor_upsert:
  assumes "\<not> engine_raises e (UpsertSyncState st)"
  shows "stored_cursor c (snd (upsert_sync_state e st s))
       = (if c = ss_channel_id st then last_ts st else stored_cursor c s)"
proof (cases "list_ex (\<lambda>r. ss_channel_id r = ss_channel_id st) (sync_state s)")
  case True
  then obtain r where r: "find (\<lambda>r. ss_channel_id r = ss_channel_id st) (sync_state s) = Some r"
    by (cases "find (\<lambda>r. ss_channel_id r = ss_channel_id st) (sync_state s)")
       (auto simp: find_None_iff list_ex_iff)
  have rk: "ss_channel_id r = ss_channel_id st"
    using r by (auto simp: find_Some_iff)
  have m: "find (\<lambda>r. ss_channel_id r = c)
        (map (\<lambda>r. if ss_channel_id r = ss_channel_id st
                   then r\<lparr>last_ts := last_ts st, last_sync_at := Some (clock s)\<rparr> else r) (sync_state s))
      = map_option (\<lambda>r. if ss_channel_id r = ss_channel_id st
                   then r\<lparr>last_ts := last_ts st, last_sync_at := Some (clock s)\<rparr> else r)
          (find (\<lambda>r. ss_channel_id r = c) (sync_state s))"
    by (rule find_map_same_key) simp
  show ?thesis
  proof (cases "c = ss_channel_id st")
    case True
    then show ?thesis
      using assms \<open>list_ex _ _\<close> r rk m by (simp add: stored_cursor_def upsert_sync_state_def)
  next
    case False
    show ?thesis
    proof (cases "find (\<lambda>r. ss_channel_id r = c) (sync_state s)")
      case None
      then show ?thesis
        using assms \<open>list_ex _ _\<close> m False by (simp add: stored_cursor_def upsert_sync_state_def)
    next
      case (Some x)
      then have "ss_channel_id x = c" by (auto simp: find_Some_iff)
      then have "ss_channel_id x \<noteq> ss_channel_id st" using False by simp
      then show ?thesis
        using assms \<open>list_ex _ _\<close> m Some False by (simp add: stored_cursor_def upsert_sync_state_def)
    qed
  qed
next
  case False
  have n: "find (\<lambda>r. ss_channel_id r = ss_channel_id st) (sync_state s) = None"
    using False by (rule find_None_list_ex)
  show ?thesis
    using assms False n
    by (cases "find (\<lambda>r. ss_channel_id r = c) (sync_state s)")
       (auto simp: stored_cursor_def upsert_sync_state_def find_append_case)
qed

lemma sync_channel_messages_unfold:
  "sync_channel_messages e ch s =
    (if engine_raises e (SelectSyncState (ch_id ch)) then (Inl StorageError, s)
     else
       (case get_channel_history e (ch_id ch) (stored_cursor (ch_id ch) s) of
          [] \<Rightarrow> (Inr (), s)
        | newest # older \<Rightarrow>
           (case for_each (sync_message e (ch_id ch) (stored_cursor (ch_id ch) s))
                   (rev (get_channel_history e (ch_id ch) (stored_cursor (ch_id ch) s))) s of
              (Inl err, s1) \<Rightarrow> (Inl err, s1)
            | (Inr u, s1) \<Rightarrow>
                if truthy (raw_ts newest)
                then upsert_sync_state e
                       \<lparr>ss_channel_id = ch_id ch, last_ts = raw_ts newest, last_sync_at = None\<rparr> s1
                else (Inr (), s1))))"
proof (cases "engine_raises e (SelectSyncState (ch_id ch))")
  case True
  then show ?thesis
    unfolding sync_channel_messages_def and_then_def get_sync_state_def by simp
next
  case False
  have g: "get_sync_state e (ch_id ch) s = (Inr (find (\<lambda>r. ss_channel_id r = ch_id ch) (sync_state s)), s)"
    using False by (simp add: get_sync_state_def)
  have old: "(case find (\<lambda>r. ss_channel_id r = ch_id ch) (sync_state s) of None \<Rightarrow> None | Some st \<Rightarrow> last_ts st)
      = stored_cursor (ch_id ch) s"
    by (simp add: stored_cursor_def)
  show ?thesis
    unfolding sync_channel_messages_def and_then_def g
    using False
    by (simp only: old Let_def prod.case sum.case returns_def if_False split: list.split)
       (simp add: returns_def split: list.split prod.split sum.split)
qed

lemma stored_cursor_cong: "sync_state s' = sync_state s \<Longrightarrow> stored_cursor c s' = stored_cursor c s"
  by (simp add: stored_cursor_def)

lemma for_each_sync_message_sync_state:
  "sync_state (snd (for_each (sync_message e c oldest) ms s)) = sync_state s"
  by (rule for_each_keeps) (rule sync_message_sync_state)

lemma cursor_after_channel_sync:
  assumes run: "sync_channel_messages e ch s = (outcome, s')"
    and page: "page = get_channel_history e (ch_id ch) (stored_cursor (ch_id ch) s)"
  shows "stored_cursor c s' =
     (if c = ch_id ch \<and> outcome = Inr () \<and> page \<noteq> [] \<and> truthy (raw_ts (hd page))
      then raw_ts (hd page) else stored_cursor c s)"
proof (cases "engine_raises e (SelectSyncState (ch_id ch))")
  case True
  then have "outcome = Inl StorageError" "s' = s"
    using run by (simp_all add: sync_channel_messages_unfold)
  then show ?thesis by simp
next
  case False
  note u = sync_channel_messages_unfold[of e ch s]
  show ?thesis
  proof (cases page)
    case Nil
    then have "outcome = Inr ()" "s' = s"
      using run False page u by simp_all
    then show ?thesis using Nil by simp
  next
    case (Cons newest older)
    let ?loop = "for_each (sync_message e (ch_id ch) (stored_cursor (ch_id ch) s)) (rev page) s"
    obtain r1 s1 where l: "?loop = (r1, s1)" by (cases ?loop)
    have fr: "sync_state s1 = sync_state s"
      using for_each_sync_message_sync_state[of e "ch_id ch" "stored_cursor (ch_id ch) s" "rev page" s] l
      by simp
    have c1: "stored_cursor c s1 = stored_cursor c s"
      using fr by (rule stored_cursor_cong)
    have hd: "hd page = newest" "page \<noteq> []" using Cons by simp_all
    have unfolded: "sync_channel_messages e ch s =
       (case r1 of Inl err \<Rightarrow> (Inl err, s1)
        | Inr u \<Rightarrow> (if truthy (raw_ts newest)
             then upsert_sync_state e \<lparr>ss_channel_id = ch_id ch, last_ts = raw_ts newest, last_sync_at = None\<rparr> s1
             else (Inr (), s1)))"
      using False page[symmetric] l Cons unfolding u by simp
    show ?thesis
    proof (cases r1)
      case (Inl err)
      then have "outcome = Inl err" "s' = s1" using unfolded run by simp_all
      then show ?thesis using c1 by simp
    next
      case (Inr v)
      show ?thesis
      proof (cases "truthy (raw_ts newest)")
        case False
        then have "outcome = Inr ()" "s' = s1" using unfolded run Inr by simp_all
        then show ?thesis using c1 hd False by simp
      next
        case True
        let ?st = "\<lparr>ss_channel_id = ch_id ch, last_ts = raw_ts newest, last_sync_at = None\<rparr>"
        have run': "upsert_sync_state e ?st s1 = (outcome, s')"
          using unfolded run Inr True by simp
        show ?thesis
        proof (cases "engine_raises e (UpsertSyncState ?st)")
          case True
          then have "outcome = Inl StorageError" "s' = s1"
            using run' by (simp_all add: upsert_sync_state_def)
          then show ?thesis using c1 by simp
        next
          case False
          have "stored_cursor c (snd (upsert_sync_state e ?st s1))
              = (if c = ch_id ch then raw_ts newest else stored_cursor c s1)"
            using stored_cursor_upsert[OF False, of c s1] by simp
          moreover have "fst (upsert_sync_state e ?st s1) = Inr ()"
            using False by (simp add: upsert_sync_state_def)
          ultimately have "stored_cursor c s' = (if c = ch_id ch then raw_ts newest else stored_cursor c s1)"
              "outcome = Inr ()"
            using run' by simp_all
          then show ?thesis using c1 hd True by simp
        qed
      qed
    qed
  qed
qed

lemma for_each_raises:
  assumes "x \<in> set xs" and "\<And>t. isl (fst (body x t))"
  shows "isl (fst (for_each body xs s))"
  using assms(1)
proof (induction xs arbitrary: s)
  case Nil
  then show ?case by simp
next
  case (Cons y ys)
  obtain r s1 where b: "body y s = (r, s1)" by (cases "body y s")
  show ?case
  proof (cases r)
    case (Inl err)
    then show ?thesis using b by simp
  next
    case (Inr u)
    have "x \<noteq> y" using assms(2)[of s] b Inr by auto
    then have "x \<in> set ys" using Cons.prems by simp
    from Cons.IH[OF this, of s1] show ?thesis using b Inr by simp
  qed
qed

lemma sync_message_upsert_raises:
  assumes "\<not> already_seen oldest (ts (from_slack (fromtimestamp e) cid m))"
    and "engine_raises e (UpsertMessage (from_slack (fromtimestamp e) cid m))"
  shows "sync_message e cid oldest m t = (Inl StorageError, t)"
  using assms by (simp add: sync_message_def and_then_def upsert_message_def Let_def)

lemma sync_channel_messages_raises:
  assumes m: "m \<in> set (get_channel_history e (ch_id ch) (stored_cursor (ch_id ch) s))"
    and new: "\<not> already_seen (stored_cursor (ch_id ch) s) (ts (from_slack (fromtimestamp e) (ch_id ch) m))"
    and bad: "engine_raises e (UpsertMessage (from_slack (fromtimestamp e) (ch_id ch) m))"
  shows "isl (fst (sync_channel_messages e ch s))"
proof (cases "engine_raises e (SelectSyncState (ch_id ch))")
  case True
  then show ?thesis by (simp add: sync_channel_messages_unfold)
next
  case False
  let ?o = "stored_cursor (ch_id ch) s"
  let ?page = "get_channel_history e (ch_id ch) ?o"
  obtain newest older where page: "?page = newest # older" using m by (cases ?page) auto
  have "m \<in> set (rev ?page)" using m by simp
  then have "isl (fst (for_each (sync_message e (ch_id ch) ?o) (rev ?page) s))"
    by (rule for_each_raises) (simp add: sync_message_upsert_raises[OF new bad])
  then obtain err s1 where "for_each (sync_message e (ch_id ch) ?o) (rev ?page) s = (Inl err, s1)"
    by (cases "for_each (sync_message e (ch_id ch) ?o) (rev ?page) s")
       (auto simp: isl_def)
  then show ?thesis
    using False page unfolding sync_channel_messages_unfold by simp
qed


text \<open>
  C2, as amended. The sync of a channel leaves the cursor at the \<open>ts\<close> of the first
  (newest) entry of the fetched page exactly when the sync returns, the page is not
  empty and that \<open>ts\<close> is not empty; in every other case the cursor keeps its value.
  An error while a message of the page is persisted is not caught: when the engine
  raises for the upsert of a message of the page that is not skipped, the sync of the
  channel raises and the cursor keeps its value.
\<close>

theorem cursor_after_sync:
  assumes "sync_channel_messages e ch s = (outcome, s')"
    and "page = get_channel_history e (ch_id ch) (stored_cursor (ch_id ch) s)"
  shows "stored_cursor (ch_id ch) s' =
     (if outcome = Inr () \<and> page \<noteq> [] \<and> truthy (raw_ts (hd page))
      then raw_ts (hd page) else stored_cursor (ch_id ch) s)
    \<and> (\<forall>m\<in>set page.
          \<not> already_seen (stored_cursor (ch_id ch) s) (ts (from_slack (fromtimestamp e) (ch_id ch) m))
          \<and> engine_raises e (UpsertMessage (from_slack (fromtimestamp e) (ch_id ch) m))
          \<longrightarrow> isl outcome \<and> stored_cursor (ch_id ch) s' = stored_cursor (ch_id ch) s)"
proof (intro conjI ballI impI)
  show c: "stored_cursor (ch_id ch) s' =
     (if outcome = Inr () \<and> page \<noteq> [] \<and> truthy (raw_ts (hd page))
      then raw_ts (hd page) else stored_cursor (ch_id ch) s)"
    using cursor_after_channel_sync[OF assms, of "ch_id ch"] by simp
  fix m
  assume m: "m \<in> set page"
    and a: "\<not> already_seen (stored_cursor (ch_id ch) s) (ts (from_slack (fromtimestamp e) (ch_id ch) m))
          \<and> engine_raises e (UpsertMessage (from_slack (fromtimestamp e) (ch_id ch) m))"
  have "isl (fst (sync_channel_messages e ch s))"
    using sync_channel_messages_raises[of m e ch s] m a assms(2) by simp
  then show i: "isl outcome" using assms(1) by simp
  then have "outcome \<noteq> Inr ()" by auto
  then show "stored_cursor (ch_id ch) s' = stored_cursor (ch_id ch) s" using c by simp
qed

theorem cursor_after_sync_witness:
  "fst (sync_channel_messages (remote_with two_message_page (\<lambda>st. False)) sample_channel sample_store)
     = Inr ()
   \<and> stored_cursor ''C1''
        (snd (sync_channel_messages (remote_with two_message_page (\<lambda>st. False))
                sample_channel sample_store)) = Some ''200.000002''
   \<and> sample_message ''100.000001''
        \<in> set (get_channel_history (remote_with two_message_page (rejects_ts ''100.000001'')) ''C1''
                 (stored_cursor ''C1'' sample_store))
   \<and> engine_raises (remote_with two_message_page (rejects_ts ''100.000001''))
        (UpsertMessage (from_slack (\<lambda>t. None) ''C1'' (sample_message ''100.000001'')))
   \<and> isl (fst (sync_channel_messages (remote_with two_message_page (rejects_ts ''100.000001''))
                  sample_channel sample_store))
   \<and> stored_cursor ''C1''
        (snd (sync_channel_messages (remote_with two_message_page (rejects_ts ''100.000001''))
                sample_channel sample_store)) = None"
  using cursor_after_sync[where e = "remote_with two_message_page (\<lambda>st. False)"
      and ch = sample_channel and s = sample_store, OF prod.collapse[symmetric] refl]
    cursor_after_sync[where e = "remote_with two_message_page (rejects_ts ''100.000001'')"
      and ch = sample_channel and s = sample_store, OF prod.collapse[symmetric] refl]
  by (simp add: sample_defs model_defs)

text \<open>The claim as stated fails where the engine raises for the older message of a
  page of two: the sync raises, and the cursor is not the newest \<open>ts\<close> of the page.\<close>

theorem cursor_not_advanced_counterexample:
  "fst (sync_channel_messages (remote_with two_message_page (rejects_ts ''100.000001''))
          sample_channel sample_store) = Inl StorageError
   \<and> stored_cursor ''C1''
        (snd (sync_channel_messages (remote_with two_message_page (rejects_ts ''100.000001''))
                sample_channel sample_store)) = None
   \<and> raw_ts (hd (get_channel_history (remote_with two_message_page (rejects_ts ''100.000001''))
                   ''C1'' (stored_cursor ''C1'' sample_store))) = Some ''200.000002''"
  by (simp add: sample_defs model_defs)

lemma for_each_mono:
  fixes f :: "store \<Rightarrow> 'b :: preorder"
  assumes "\<And>x s. f s \<le> f (snd (body x s))"
  shows "f s \<le> f (snd (for_each body xs s))"
proof (induction xs arbitrary: s)
  case Nil
  show ?case by simp
next
  case (Cons x xs)
  obtain r s1 where b: "body x s = (r, s1)" by (cases "body x s")
  have 1: "f s \<le> f s1" using assms[of s x] b by simp
  show ?case
  proof (cases r)
    case (Inl err)
    then show ?thesis using b 1 by simp
  next
    case (Inr u)
    then show ?thesis using b 1 Cons.IH[of s1] by (auto intro: order_trans)
  qed
qed

lemma channel_sync_cursor_mono:
  assumes "\<forall>cid t. \<forall>m\<in>set (get_channel_history e cid (Some t)). \<forall>n. raw_ts m = Some n \<longrightarrow> t \<le> n"
  shows "stored_cursor c s \<le> stored_cursor c (snd (sync_channel_messages e ch s))"
proof -
  obtain outcome s' where run: "sync_channel_messages e ch s = (outcome, s')"
    by (cases "sync_channel_messages e ch s")
  define page where "page = get_channel_history e (ch_id ch) (stored_cursor (ch_id ch) s)"
  note c = cursor_after_channel_sync[OF run page_def, of c]
  show ?thesis
  proof (cases "c = ch_id ch \<and> outcome = Inr () \<and> page \<noteq> [] \<and> truthy (raw_ts (hd page))")
    case False
    then show ?thesis using c run by auto
  next
    case True
    then obtain n where n: "raw_ts (hd page) = Some n" by (cases "raw_ts (hd page)") auto
    have new: "stored_cursor c s' = Some n" using c True n by simp
    show ?thesis
    proof (cases "stored_cursor c s")
      case None
      then show ?thesis using run new by simp
    next
      case (Some t)
      have "hd page \<in> set (get_channel_history e c (Some t))"
        using True Some page_def by auto
      then have "t \<le> n" using assms n by blast
      then show ?thesis using run new Some by simp
    qed
  qed
qed

text \<open>
  C3. When every message that a history fetch with lower bound \<open>t\<close> returns has a
  \<open>ts\<close> of at least \<open>t\<close>, the cursor of every channel after a sync cycle is at least
  its value before the cycle (a channel without a cursor, \<open>None\<close>, is below every
  cursor), whether the cycle returns or raises.
\<close>

theorem cursor_never_decreases:
  assumes "\<forall>cid t. \<forall>m\<in>set (get_channel_history e cid (Some t)). \<forall>n. raw_ts m = Some n \<longrightarrow> t \<le> n"
  shows "stored_cursor c s \<le> stored_cursor c (snd (sync_all_messages e s))"
proof (cases "engine_raises e SelectChannels")
  case True
  then show ?thesis by (simp add: sync_all_messages_def and_then_def get_all_channels_def)
next
  case False
  have "stored_cursor c s \<le> stored_cursor c (snd (for_each (sync_channel_messages e) chs s))" for chs
    by (rule for_each_mono) (rule channel_sync_cursor_mono[OF assms])
  then show ?thesis
    using False by (simp add: sync_all_messages_def and_then_def get_all_channels_def)
qed

theorem cursor_never_decreases_witness:
  "stored_cursor ''C1'' sample_store = None
   \<and> stored_cursor ''C1'' (snd (sync_all_messages (remote_with two_message_page (\<lambda>st. False)) sample_store))
       = Some ''200.000002''
   \<and> stored_cursor ''C1'' sample_store
       \<le> stored_cursor ''C1'' (snd (sync_all_messages (remote_with two_message_page (\<lambda>st. False)) sample_store))"
proof -
  have h: "\<forall>cid t. \<forall>m\<in>set (get_channel_history (remote_with two_message_page (\<lambda>st. False)) cid (Some t)).
             \<forall>n. raw_ts m = Some n \<longrightarrow> t \<le> n"
    by (auto simp: remote_with_def)
  from cursor_never_decreases[OF h, of "''C1''" sample_store] show ?thesis
    by (simp add: sample_defs model_defs)
qed

subsection \<open>Reactions\<close>

lemma for_each_prefix_rule_gen:
  assumes step: "\<And>seen x rest t t'. xs = seen @ x # rest \<Longrightarrow> I seen t \<Longrightarrow> body x t = (Inr (), t')
      \<Longrightarrow> I (seen @ [x]) t'"
  shows "for_each body ys s = (Inr (), s') \<Longrightarrow> xs = seen @ ys \<Longrightarrow> I seen s \<Longrightarrow> I xs s'"
proof (induction ys arbitrary: seen s)
  case Nil
  then show ?case by simp
next
  case (Cons x ys)
  obtain r s1 where b: "body x s = (r, s1)" by (cases "body x s")
  show ?case
  proof (cases r)
    case (Inl err)
    then show ?thesis using Cons.prems(1) b by simp
  next
    case (Inr u)
    then have rest: "for_each body ys s1 = (Inr (), s')" using Cons.prems(1) b by simp
    have "I (seen @ [x]) s1" using step[OF Cons.prems(2,3)] b Inr by simp
    moreover have "xs = (seen @ [x]) @ ys" using Cons.prems(2) by simp
    ultimately show ?thesis using Cons.IH[OF rest] by blast
  qed
qed

lemma for_each_prefix_rule:
  assumes "for_each body xs s = (Inr (), s')" and "I [] s"
    and "\<And>seen x rest t t'. xs = seen @ x # rest \<Longrightarrow> I seen t \<Longrightarrow> body x t = (Inr (), t')
      \<Longrightarrow> I (seen @ [x]) t'"
  shows "I xs s'"
  using for_each_prefix_rule_gen[of xs I body xs s s' "[]", OF assms(3) assms(1) _ assms(2)] by simp

lemma list_ex_stored_rows:
  "list_ex (\<lambda>r. rx_message_id r = i \<and> rx_name r = n \<and> rx_user_id r = u) (reactions s)
     \<longleftrightarrow> (i, n, u) \<in> set (stored_rows i s)"
  by (auto simp: stored_rows_def list_ex_iff)

lemma insert_reaction_rows:
  assumes "insert_reaction e i n u s = (Inr (), s')"
  shows "stored_rows j s' =
     (if j = i \<and> (i, n, u) \<notin> set (stored_rows i s) then stored_rows j s @ [(i, n, u)]
      else stored_rows j s)"
proof (cases "engine_raises e (InsertReaction i n u)")
  case True
  then show ?thesis using assms by (simp add: insert_reaction_def)
next
  case False
  show ?thesis
  proof (cases "(i, n, u) \<in> set (stored_rows i s)")
    case True
    then have "s' = s\<lparr>next_reaction_id := next_reaction_id s + 1\<rparr>"
      using assms False by (simp add: insert_reaction_def list_ex_stored_rows)
    then show ?thesis using True by (simp add: stored_rows_def)
  next
    case nin: False
    then have "s' = s\<lparr>reactions := reactions s @
                   [\<lparr> rx_id = next_reaction_id s, rx_message_id = i, rx_name = n,
                      rx_user_id = u, rx_created_at = clock s \<rparr>],
                next_reaction_id := next_reaction_id s + 1\<rparr>"
      using assms False by (simp add: insert_reaction_def list_ex_stored_rows)
    then show ?thesis using nin by (simp add: stored_rows_def)
  qed
qed

lemma insert_users_rows:
  assumes run: "for_each (insert_reaction e i n) us s = (Inr (), s')"
    and d: "distinct (stored_rows i s)"
  shows "set (stored_rows i s') = set (stored_rows i s) \<union> (\<lambda>u. (i, n, u)) ` set us
    \<and> distinct (stored_rows i s')
    \<and> (\<forall>j. j \<noteq> i \<longrightarrow> stored_rows j s' = stored_rows j s)"
proof -
  let ?I = "\<lambda>seen t. set (stored_rows i t) = set (stored_rows i s) \<union> (\<lambda>u. (i, n, u)) ` set seen
    \<and> distinct (stored_rows i t)
    \<and> (\<forall>j. j \<noteq> i \<longrightarrow> stored_rows j t = stored_rows j s)"
  have "?I us s'"
  proof (rule for_each_prefix_rule[where I = ?I, OF run])
    show "?I [] s" using d by simp
  next
    fix seen x rest t t'
    assume inv: "?I seen t" and b: "insert_reaction e i n x t = (Inr (), t')"
    note r = insert_reaction_rows[OF b]
    show "?I (seen @ [x]) t'"
      using inv r[of i] r by (auto split: if_splits)
  qed
  then show ?thesis .
qed

lemma upsert_reactions_rows:
  assumes run: "upsert_reactions e i snapshot s = (Inr (), s')"
  shows "set (stored_rows i s') = set (snapshot_rows i snapshot)
    \<and> distinct (stored_rows i s')
    \<and> (\<forall>j. j \<noteq> i \<longrightarrow> stored_rows j s' = stored_rows j s)"
proof -
  let ?s0 = "s\<lparr> reactions := filter (\<lambda>r. rx_message_id r \<noteq> i) (reactions s) \<rparr>"
  let ?body = "\<lambda>reaction :: reaction_data.
             for_each (insert_reaction e i
                         (case reaction_name reaction of None \<Rightarrow> [] | Some n \<Rightarrow> n))
               (case reaction_users reaction of None \<Rightarrow> [] | Some us \<Rightarrow> us)"
  have ok: "\<not> engine_raises e (DeleteReactions i)"
    using run by (auto simp: upsert_reactions_def split: if_splits)
  then have loop: "for_each ?body snapshot ?s0 = (Inr (), s')"
    using run by (simp add: upsert_reactions_def)
  have empty: "stored_rows i ?s0 = []" by (simp add: stored_rows_def)
  have others: "stored_rows j ?s0 = stored_rows j s" if "j \<noteq> i" for j
  proof -
    have "filter (\<lambda>r. rx_message_id r = j) (filter (\<lambda>r. rx_message_id r \<noteq> i) (reactions s))
        = filter (\<lambda>r. rx_message_id r = j) (reactions s)"
      using that by (auto intro: filter_cong)
    then show ?thesis by (simp add: stored_rows_def)
  qed
  let ?I = "\<lambda>seen t. set (stored_rows i t) = set (snapshot_rows i seen)
    \<and> distinct (stored_rows i t)
    \<and> (\<forall>j. j \<noteq> i \<longrightarrow> stored_rows j t = stored_rows j s)"
  have "?I snapshot s'"
  proof (rule for_each_prefix_rule[where I = ?I, OF loop])
    show "?I [] ?s0" using empty others by (simp add: snapshot_rows_def)
  next
    fix seen and x :: reaction_data and rest t t'
    assume inv: "?I seen t" and b: "?body x t = (Inr (), t')"
    from inv have d: "distinct (stored_rows i t)" by simp
    note r = insert_users_rows[OF b d]
    have "set (snapshot_rows i (seen @ [x])) = set (snapshot_rows i seen)
        \<union> (\<lambda>u. (i, case reaction_name x of None \<Rightarrow> [] | Some n \<Rightarrow> n, u))
            ` set (case reaction_users x of None \<Rightarrow> [] | Some us \<Rightarrow> us)"
      by (auto simp: snapshot_rows_def)
    then show "?I (seen @ [x]) t'"
      using inv r by simp
  qed
  then show ?thesis .
qed

lemma upsert_message_reactions: "reactions (snd (upsert_message e m s)) = reactions s"
  by (simp add: upsert_message_def split: option.splits)

text \<open>
  C1, as amended. For every fetched snapshot that is not empty, persisting the message
  (\<open>upsert_message\<close>, then the guarded \<open>upsert_reactions\<close>) leaves, where both return,
  exactly the rows \<open>(message_id, emoji_name, user_id)\<close> of the snapshot for that
  message, each once, and the rows of every other message as they were.
\<close>

theorem nonempty_snapshot_replaces_reactions:
  assumes "snapshot \<noteq> []"
    and "upsert_message e msg s = (Inr message_id, s1)"
    and "store_reactions e message_id (Some snapshot) s1 = (Inr (), s2)"
  shows "set (stored_rows message_id s2) = set (snapshot_rows message_id snapshot)
    \<and> distinct (stored_rows message_id s2)
    \<and> (\<forall>other. other \<noteq> message_id \<longrightarrow> stored_rows other s2 = stored_rows other s)"
proof -
  have "reactions s1 = reactions s"
    using upsert_message_reactions[of e msg s] assms(2) by simp
  then have same: "stored_rows j s1 = stored_rows j s" for j
    by (simp add: stored_rows_def)
  have "upsert_reactions e message_id snapshot s1 = (Inr (), s2)"
    using assms(1,3) by (simp add: store_reactions_def)
  from upsert_reactions_rows[OF this] show ?thesis
    using same by simp
qed

theorem nonempty_snapshot_replaces_reactions_witness:
  "fst (upsert_message (remote_with [] (\<lambda>st. False))
          (from_slack (\<lambda>t. None) ''C1'' (sample_message ''100.000001'')) hello_store) = Inr 1
   \<and> fst (store_reactions (remote_with [] (\<lambda>st. False)) 1
            (Some [\<lparr> reaction_name = Some ''eyes'', reaction_users = Some [''U3'', ''U4''] \<rparr>])
            (snd (upsert_message (remote_with [] (\<lambda>st. False))
                    (from_slack (\<lambda>t. None) ''C1'' (sample_message ''100.000001'')) hello_store)))
       = Inr ()
   \<and> stored_rows 1 hello_store = [(1, ''+1'', ''U9'')]
   \<and> set (stored_rows 1
            (snd (store_reactions (remote_with [] (\<lambda>st. False)) 1
                    (Some [\<lparr> reaction_name = Some ''eyes'', reaction_users = Some [''U3'', ''U4''] \<rparr>])
                    (snd (upsert_message (remote_with [] (\<lambda>st. False))
                            (from_slack (\<lambda>t. None) ''C1'' (sample_message ''100.000001''))
                            hello_store)))))
       = {(1, ''eyes'', ''U3''), (1, ''eyes'', ''U4'')}"
proof -
  let ?e = "remote_with [] (\<lambda>st. False)"
  let ?snap = "[\<lparr> reaction_name = Some ''eyes'', reaction_users = Some [''U3'', ''U4''] \<rparr>]"
  let ?up = "upsert_message ?e (from_slack (\<lambda>t. None) ''C1'' (sample_message ''100.000001'')) hello_store"
  have h1: "?snap \<noteq> []" by simp
  have h2: "?up = (Inr 1, snd ?up)"
    by (simp add: sample_defs model_defs)
  have h3: "store_reactions ?e 1 (Some ?snap) (snd ?up)
      = (Inr (), snd (store_reactions ?e 1 (Some ?snap) (snd ?up)))"
    by (simp add: sample_defs model_defs)
  from nonempty_snapshot_replaces_reactions[OF h1 h2 h3] show ?thesis
    using h2 h3 by (simp add: sample_defs model_defs)
qed

text \<open>The claim as stated fails for the empty snapshot: the message \<open>100.000001\<close> is
  stored with one reaction, it is fetched again without a \<open>reactions\<close> key, the sync
  returns, and the row of the earlier snapshot is still there.\<close>

theorem stale_reaction_counterexample:
  "raw_reactions (sample_message ''100.000001'') = None
   \<and> fst (sync_channel_messages (remote_with [sample_message ''100.000001''] (\<lambda>st. False))
            sample_channel hello_store) = Inr ()
   \<and> stored_rows 1
        (snd (sync_channel_messages (remote_with [sample_message ''100.000001''] (\<lambda>st. False))
                sample_channel hello_store)) = [(1, ''+1'', ''U9'')]
   \<and> snapshot_rows 1 [] = []"
  by (simp add: sample_defs model_defs)

subsection \<open>Thread replies\<close>

lemma find_same_key_None: "find P xs = None \<longleftrightarrow> \<not> list_ex P xs"
  by (auto simp: find_None_iff list_ex_iff)

lemma upsert_message_rows:
  assumes "upsert_message e m s = (Inr i, s')"
  shows "messages s' =
     (if list_ex (same_key m) (messages s)
      then map (\<lambda>r. if same_key m r then conflict_update (clock s) m r else r) (messages s)
      else messages s @ [inserted_row (next_message_id s) (clock s) m])"
proof (cases "find (same_key m) (messages s)")
  case None
  then have "\<not> list_ex (same_key m) (messages s)" by (simp add: find_same_key_None)
  then show ?thesis using assms None by (auto simp: upsert_message_def split: if_splits)
next
  case (Some row)
  then have "list_ex (same_key m) (messages s)"
    using find_same_key_None[of "same_key m" "messages s"] by simp
  then show ?thesis using assms Some by (auto simp: upsert_message_def split: if_splits)
qed

lemma and_then_returns:
  assumes "and_then m f s = (Inr b, s')"
  shows "\<exists>a s1. m s = (Inr a, s1) \<and> f a s1 = (Inr b, s')"
proof (cases "m s")
  case (Pair r s1)
  then show ?thesis using assms by (cases r) (simp_all add: and_then_def)
qed

lemma sync_reply_returns:
  assumes "sync_reply e cid x s = (Inr (), s')"
  shows "\<exists>i s1. upsert_message e (from_slack (fromtimestamp e) cid x) s = (Inr i, s1)
            \<and> messages s' = messages s1"
proof -
  let ?m = "from_slack (fromtimestamp e) cid x"
  from assms obtain i s1 where 1: "upsert_message e ?m s = (Inr i, s1)"
    and 2: "and_then (store_reactions e i (raw_reactions x)) (\<lambda>u. cache_author e (user_id ?m)) s1 = (Inr (), s')"
    unfolding sync_reply_def Let_def by (blast dest: and_then_returns)
  from and_then_returns[OF 2] obtain u s2 where 3: "store_reactions e i (raw_reactions x) s1 = (Inr u, s2)"
    and 4: "cache_author e (user_id ?m) s2 = (Inr (), s')" by blast
  have "messages s2 = messages s1" using store_reactions_messages[of e i "raw_reactions x" s1] 3 by simp
  moreover have "messages s' = messages s2" using cache_author_messages[of e "user_id ?m" s2] 4 by simp
  ultimately show ?thesis using 1 by simp
qed

lemma conflict_update_key [simp]: "message_key (conflict_update now m r) = message_key r"
  by (simp add: conflict_update_def message_key_def)

lemma inserted_row_key [simp]: "message_key (inserted_row i now m) = (channel_id m, ts m)"
  by (simp add: inserted_row_def message_key_def)

lemma same_key_iff: "same_key m r \<longleftrightarrow> message_key r = (channel_id m, ts m)"
  by (auto simp: same_key_def message_key_def)

text \<open>The keys after an upsert: unchanged when the key is stored, one more otherwise.\<close>

lemma upsert_message_keys:
  assumes "upsert_message e m s = (Inr i, s')"
  shows "map message_key (messages s') =
     (if (channel_id m, ts m) \<in> set (map message_key (messages s)) then map message_key (messages s)
      else map message_key (messages s) @ [(channel_id m, ts m)])"
proof -
  have ex: "list_ex (same_key m) (messages s) \<longleftrightarrow> (channel_id m, ts m) \<in> set (map message_key (messages s))"
    by (force simp: list_ex_iff same_key_iff)
  have "map message_key (map (\<lambda>r. if same_key m r then conflict_update (clock s) m r else r) (messages s))
      = map message_key (messages s)"
    by (induction "messages s") (auto intro: map_cong)
  then show ?thesis
    using upsert_message_rows[OF assms] ex by simp
qed

lemma upsert_reply_step:
  assumes up: "upsert_message e m s = (Inr i, s')"
    and d: "distinct (map message_key (messages s))"
    and cm: "channel_id m = cid" and tm: "thread_ts m = Some tts" and nm: "ts m \<noteq> tts"
    and inT: "ts m \<in> T"
    and inv: "\<forall>row\<in>set (messages s). row_channel_id row = cid \<and> row_ts row \<noteq> tts \<longrightarrow>
                (row_thread_ts row = Some tts \<longrightarrow> row_ts row \<in> T)
                \<and> (row_ts row \<in> D \<longrightarrow> row_thread_ts row = Some tts)"
  shows "distinct (map message_key (messages s'))
    \<and> set (map message_key (messages s')) = insert (cid, ts m) (set (map message_key (messages s)))
    \<and> (\<forall>row\<in>set (messages s'). row_channel_id row = cid \<and> row_ts row \<noteq> tts \<longrightarrow>
          (row_thread_ts row = Some tts \<longrightarrow> row_ts row \<in> T)
          \<and> (row_ts row \<in> insert (ts m) D \<longrightarrow> row_thread_ts row = Some tts))"
proof -
  note k = upsert_message_keys[OF up]
  have keys: "distinct (map message_key (messages s'))"
    "set (map message_key (messages s')) = insert (cid, ts m) (set (map message_key (messages s)))"
    using k d cm by (auto split: if_splits)
  have other: "(row_thread_ts r = Some tts \<longrightarrow> row_ts r \<in> T)
      \<and> (row_ts r \<in> insert (ts m) D \<longrightarrow> row_thread_ts r = Some tts)"
    if "r \<in> set (messages s)" "row_channel_id r = cid" "row_ts r \<noteq> tts" "\<not> same_key m r" for r
  proof -
    have "row_ts r \<noteq> ts m" using that cm by (auto simp: same_key_def)
    then show ?thesis using inv that by auto
  qed
  have upd: "row_channel_id (conflict_update (clock s) m r) = cid
      \<and> row_thread_ts (conflict_update (clock s) m r) = Some tts
      \<and> row_ts (conflict_update (clock s) m r) = ts m" if "same_key m r" for r
    using that cm tm by (simp add: conflict_update_def same_key_def)
  have ins: "row_thread_ts (inserted_row (next_message_id s) (clock s) m) = Some tts
      \<and> row_ts (inserted_row (next_message_id s) (clock s) m) = ts m"
    using tm by (simp add: inserted_row_def)
  have rows: "\<forall>row\<in>set (messages s'). row_channel_id row = cid \<and> row_ts row \<noteq> tts \<longrightarrow>
          (row_thread_ts row = Some tts \<longrightarrow> row_ts row \<in> T)
          \<and> (row_ts row \<in> insert (ts m) D \<longrightarrow> row_thread_ts row = Some tts)"
  proof (cases "list_ex (same_key m) (messages s)")
    case True
    then have ms: "messages s' = map (\<lambda>r. if same_key m r then conflict_update (clock s) m r else r) (messages s)"
      using upsert_message_rows[OF up] by simp
    show ?thesis
    proof
      fix row assume "row \<in> set (messages s')"
      then obtain r where r: "r \<in> set (messages s)"
        "row = (if same_key m r then conflict_update (clock s) m r else r)"
        using ms by auto
      show "row_channel_id row = cid \<and> row_ts row \<noteq> tts \<longrightarrow>
          (row_thread_ts row = Some tts \<longrightarrow> row_ts row \<in> T)
          \<and> (row_ts row \<in> insert (ts m) D \<longrightarrow> row_thread_ts row = Some tts)"
      proof (cases "same_key m r")
        case True
        then show ?thesis using r upd[OF True] inT by simp
      next
        case False
        show ?thesis
        proof (intro impI)
          assume h: "row_channel_id row = cid \<and> row_ts row \<noteq> tts"
          have eq: "row = r" using r False by simp
          from h have "row_channel_id r = cid" "row_ts r \<noteq> tts" unfolding eq by simp_all
          from other[OF r(1) this False] show "(row_thread_ts row = Some tts \<longrightarrow> row_ts row \<in> T)
            \<and> (row_ts row \<in> insert (ts m) D \<longrightarrow> row_thread_ts row = Some tts)"
            unfolding eq .
        qed
      qed
    qed
  next
    case False
    then have ms: "messages s' = messages s @ [inserted_row (next_message_id s) (clock s) m]"
      using upsert_message_rows[OF up] by simp
    have "\<not> same_key m r" if "r \<in> set (messages s)" for r
      using False that by (auto simp: list_ex_iff)
    then show ?thesis using ms other ins inT by auto
  qed
  show ?thesis using keys rows by blast
qed

lemma count_reply_rows:
  assumes d: "distinct (map message_key rows)"
    and ch: "\<forall>row\<in>set rows. row_channel_id row = cid \<and> row_ts row \<noteq> tts \<longrightarrow>
                (row_thread_ts row = Some tts \<longleftrightarrow> row_ts row \<in> T)"
    and cov: "\<forall>t\<in>T. (cid, t) \<in> set (map message_key rows)"
    and np: "tts \<notin> T"
  shows "length (filter (\<lambda>row. row_channel_id row = cid \<and> row_thread_ts row = Some tts
                          \<and> row_ts row \<noteq> tts) rows) = card T"
proof -
  let ?F = "filter (\<lambda>row. row_channel_id row = cid \<and> row_thread_ts row = Some tts
                          \<and> row_ts row \<noteq> tts) rows"
  have dF: "distinct (map message_key ?F)" using d by (rule distinct_map_filter)
  have "set (map message_key ?F) = (\<lambda>t. (cid, t)) ` T"
  proof (intro equalityI subsetI)
    fix k assume "k \<in> set (map message_key ?F)"
    then obtain row where "row \<in> set rows" "row_channel_id row = cid" "row_thread_ts row = Some tts"
      "row_ts row \<noteq> tts" "k = message_key row" by auto
    then show "k \<in> (\<lambda>t. (cid, t)) ` T" using ch by (auto simp: message_key_def)
  next
    fix k assume "k \<in> (\<lambda>t. (cid, t)) ` T"
    then obtain t where t: "t \<in> T" "k = (cid, t)" by auto
    then obtain row where row: "row \<in> set rows" "message_key row = (cid, t)" using cov by auto
    then have rc: "row_channel_id row = cid" "row_ts row = t" by (simp_all add: message_key_def)
    have nt: "row_ts row \<noteq> tts" using rc t(1) np by auto
    then have "row_thread_ts row = Some tts" using ch row(1) t(1) rc by auto
    then show "k \<in> set (map message_key ?F)"
      using row t rc nt by force
  qed
  then have "card (set (map message_key ?F)) = card T"
    by (simp add: card_image inj_on_def)
  then show ?thesis using distinct_card[OF dF] by simp
qed

text \<open>The rows of a thread's replies after the sync of the thread.\<close>

lemma reply_rows_after_thread_sync:
  assumes d0: "distinct (map message_key (messages s))"
    and known: "\<forall>row\<in>set (messages s). row_channel_id row = cid \<and> row_thread_ts row = Some tts
                  \<and> row_ts row \<noteq> tts
                  \<longrightarrow> row_ts row \<in> (\<lambda>r. ts (from_slack (fromtimestamp e) cid r))
                                      ` set (get_thread_replies e cid tts)"
    and dk: "distinct (map (\<lambda>r. ts (from_slack (fromtimestamp e) cid r)) (get_thread_replies e cid tts))"
    and wf: "\<forall>r\<in>set (get_thread_replies e cid tts).
               raw_thread_ts r = Some tts \<and> ts (from_slack (fromtimestamp e) cid r) \<noteq> tts"
    and run: "sync_thread_replies e cid tts s = (Inr (), s')"
  shows "length (filter (\<lambda>row. row_channel_id row = cid \<and> row_thread_ts row = Some tts
                          \<and> row_ts row \<noteq> tts) (messages s'))
         = length (get_thread_replies e cid tts)
    \<and> distinct (map message_key (messages s'))"
proof -
  let ?replies = "get_thread_replies e cid tts"
  let ?key = "\<lambda>r. ts (from_slack (fromtimestamp e) cid r)"
  have loop: "for_each (sync_reply e cid) ?replies s = (Inr (), s')"
    using run by (simp add: sync_thread_replies_def)
  let ?I = "\<lambda>seen t. distinct (map message_key (messages t))
     \<and> (\<forall>row\<in>set (messages t). row_channel_id row = cid \<and> row_ts row \<noteq> tts \<longrightarrow>
           (row_thread_ts row = Some tts \<longrightarrow> row_ts row \<in> ?key ` set ?replies)
           \<and> (row_ts row \<in> ?key ` set seen \<longrightarrow> row_thread_ts row = Some tts))
     \<and> (\<forall>x\<in>set seen. (cid, ?key x) \<in> set (map message_key (messages t)))"
  have "?I ?replies s'"
  proof (rule for_each_prefix_rule[where I = ?I, OF loop])
    show "?I [] s" using d0 known by auto
  next
    fix seen x rest t t'
    assume pre: "?replies = seen @ x # rest" and inv: "?I seen t"
      and b: "sync_reply e cid x t = (Inr (), t')"
    let ?m = "from_slack (fromtimestamp e) cid x"
    from sync_reply_returns[OF b] obtain i s1 where up: "upsert_message e ?m t = (Inr i, s1)"
      and same: "messages t' = messages s1" by blast
    have xin: "x \<in> set ?replies" using pre by simp
    then have tm: "thread_ts ?m = Some tts" using wf by (simp add: from_slack_def Let_def)
    have nm: "ts ?m \<noteq> tts" using wf xin by blast
    have cm: "channel_id ?m = cid" by (simp add: from_slack_def Let_def)
    from inv have d: "distinct (map message_key (messages t))"
      and ch: "\<forall>row\<in>set (messages t). row_channel_id row = cid \<and> row_ts row \<noteq> tts \<longrightarrow>
           (row_thread_ts row = Some tts \<longrightarrow> row_ts row \<in> ?key ` set ?replies)
           \<and> (row_ts row \<in> ?key ` set seen \<longrightarrow> row_thread_ts row = Some tts)"
      and cov: "\<forall>x\<in>set seen. (cid, ?key x) \<in> set (map message_key (messages t))"
      by blast+
    have inT: "ts ?m \<in> ?key ` set ?replies" using xin by blast
    note st = upsert_reply_step[OF up d cm tm nm inT ch]
    have s1: "distinct (map message_key (messages s1))" using st by (rule conjunct1)
    have s2: "set (map message_key (messages s1))
        = insert (cid, ts ?m) (set (map message_key (messages t)))"
      using st by (rule conjunct2[THEN conjunct1])
    have s3: "\<forall>row\<in>set (messages s1). row_channel_id row = cid \<and> row_ts row \<noteq> tts \<longrightarrow>
           (row_thread_ts row = Some tts \<longrightarrow> row_ts row \<in> ?key ` set ?replies)
           \<and> (row_ts row \<in> insert (ts ?m) (?key ` set seen) \<longrightarrow> row_thread_ts row = Some tts)"
      using st by (rule conjunct2[THEN conjunct2])
    have img: "?key ` set (seen @ [x]) = insert (ts ?m) (?key ` set seen)" by simp
    have c3: "\<forall>y\<in>set (seen @ [x]). (cid, ?key y) \<in> set (map message_key (messages s1))"
      unfolding s2 using cov by auto
    show "?I (seen @ [x]) t'"
      unfolding same img using s1 s3 c3 by (intro conjI)
  qed
  then have d: "distinct (map message_key (messages s'))"
    and ch2: "\<forall>row\<in>set (messages s'). row_channel_id row = cid \<and> row_ts row \<noteq> tts \<longrightarrow>
           (row_thread_ts row = Some tts \<longrightarrow> row_ts row \<in> ?key ` set ?replies)
           \<and> (row_ts row \<in> ?key ` set ?replies \<longrightarrow> row_thread_ts row = Some tts)"
    and cov: "\<forall>t\<in>?key ` set ?replies. (cid, t) \<in> set (map message_key (messages s'))"
    by blast+
  from ch2 have ch: "\<forall>row\<in>set (messages s'). row_channel_id row = cid \<and> row_ts row \<noteq> tts \<longrightarrow>
           (row_thread_ts row = Some tts \<longleftrightarrow> row_ts row \<in> ?key ` set ?replies)"
    by blast
  have np: "tts \<notin> ?key ` set ?replies" using wf by auto
  have "length (filter (\<lambda>row. row_channel_id row = cid \<and> row_thread_ts row = Some tts
                          \<and> row_ts row \<noteq> tts) (messages s'))
      = card (?key ` set ?replies)"
    using count_reply_rows[OF d ch cov np] .
  also have "\<dots> = length ?replies"
    using dk distinct_card[of "map ?key ?replies"] by simp
  finally show ?thesis using d by simp
qed

text \<open>The same at the call site: the sync of a thread parent, which upserts the parent
  first.\<close>

lemma parent_row_keeps_thread_known:
  assumes up: "upsert_message e m s = (Inr i, s1)"
    and tsm: "ts m = tts"
    and known: "\<forall>row\<in>set (messages s). row_channel_id row = cid \<and> row_thread_ts row = Some tts
                  \<and> row_ts row \<noteq> tts \<longrightarrow> row_ts row \<in> T"
  shows "\<forall>row\<in>set (messages s1). row_channel_id row = cid \<and> row_thread_ts row = Some tts
                  \<and> row_ts row \<noteq> tts \<longrightarrow> row_ts row \<in> T"
proof (cases "list_ex (same_key m) (messages s)")
  case True
  then have ms: "messages s1 = map (\<lambda>r. if same_key m r then conflict_update (clock s) m r else r) (messages s)"
    using upsert_message_rows[OF up] by simp
  have "row_ts (conflict_update (clock s) m r) = tts" if "same_key m r" for r
    using that tsm by (simp add: conflict_update_def same_key_def)
  then show ?thesis using ms known by auto
next
  case False
  then have ms: "messages s1 = messages s @ [inserted_row (next_message_id s) (clock s) m]"
    using upsert_message_rows[OF up] by simp
  have "row_ts (inserted_row (next_message_id s) (clock s) m) = tts"
    using tsm by (simp add: inserted_row_def)
  then show ?thesis using ms known by auto
qed

lemma reply_rows_after_parent_sync:
  assumes d0: "distinct (map message_key (messages s))"
    and known: "\<forall>row\<in>set (messages s). row_channel_id row = cid \<and> row_thread_ts row = Some tts
                  \<and> row_ts row \<noteq> tts
                  \<longrightarrow> row_ts row \<in> (\<lambda>r. ts (from_slack (fromtimestamp e) cid r))
                                      ` set (get_thread_replies e cid tts)"
    and par: "ts (from_slack (fromtimestamp e) cid parent) = tts"
      "0 < reply_count (from_slack (fromtimestamp e) cid parent)"
      "\<not> already_seen oldest tts"
    and dk: "distinct (map (\<lambda>r. ts (from_slack (fromtimestamp e) cid r)) (get_thread_replies e cid tts))"
    and wf: "\<forall>r\<in>set (get_thread_replies e cid tts).
               raw_thread_ts r = Some tts \<and> ts (from_slack (fromtimestamp e) cid r) \<noteq> tts"
    and run: "sync_message e cid oldest parent s = (Inr (), s')"
  shows "length (filter (\<lambda>row. row_channel_id row = cid \<and> row_thread_ts row = Some tts
                          \<and> row_ts row \<noteq> tts) (messages s'))
         = length (get_thread_replies e cid tts)"
proof -
  let ?msg = "from_slack (fromtimestamp e) cid parent"
  have run': "and_then (upsert_message e ?msg) (\<lambda>message_id.
           and_then (store_reactions e message_id (raw_reactions parent)) (\<lambda>u.
           and_then (sync_thread_replies e cid tts) (\<lambda>u. cache_author e (user_id ?msg)))) s = (Inr (), s')"
    using run par by (simp add: sync_message_def Let_def)
  from and_then_returns[OF run'] obtain i s1 where up: "upsert_message e ?msg s = (Inr i, s1)"
    and r1: "and_then (store_reactions e i (raw_reactions parent)) (\<lambda>u.
           and_then (sync_thread_replies e cid tts) (\<lambda>u. cache_author e (user_id ?msg))) s1 = (Inr (), s')"
    by blast
  from and_then_returns[OF r1] obtain u2 s2 where sr: "store_reactions e i (raw_reactions parent) s1 = (Inr u2, s2)"
    and r2: "and_then (sync_thread_replies e cid tts) (\<lambda>u. cache_author e (user_id ?msg)) s2 = (Inr (), s')"
    by blast
  from and_then_returns[OF r2] obtain u3 s3 where th: "sync_thread_replies e cid tts s2 = (Inr u3, s3)"
    and ca: "cache_author e (user_id ?msg) s3 = (Inr (), s')" by blast
  have m12: "messages s2 = messages s1"
    using store_reactions_messages[of e i "raw_reactions parent" s1] sr by simp
  have d1: "distinct (map message_key (messages s1))"
    using upsert_message_keys[OF up] d0 by (auto split: if_splits)
  have f1: "\<forall>row\<in>set (messages s1). row_channel_id row = cid \<and> row_thread_ts row = Some tts
                  \<and> row_ts row \<noteq> tts
                  \<longrightarrow> row_ts row \<in> (\<lambda>r. ts (from_slack (fromtimestamp e) cid r))
                                      ` set (get_thread_replies e cid tts)"
    using parent_row_keeps_thread_known[OF up par(1) known] .
  have th': "sync_thread_replies e cid tts s2 = (Inr (), s3)" using th by simp
  have "length (filter (\<lambda>row. row_channel_id row = cid \<and> row_thread_ts row = Some tts
                          \<and> row_ts row \<noteq> tts) (messages s3))
         = length (get_thread_replies e cid tts)"
    using reply_rows_after_thread_sync[OF _ _ dk wf th'] d1 f1 m12 by simp
  moreover have "messages s' = messages s3"
    using cache_author_messages[of e "user_id ?msg" s3] ca by simp
  ultimately show ?thesis by simp
qed


lemma get_thread_replies_drop:
  assumes "conversations_replies e cid tts = Inr (Some msgs)"
  shows "get_thread_replies e cid tts = drop 1 msgs"
  using assms by (cases msgs) (simp_all add: get_thread_replies_def)

text \<open>
  C9. For every response of the thread call, \<open>get_thread_replies\<close> returns the
  entries after the first, and \<open>[]\<close> for a response of at most one entry. So when the
  response is the parent and \<open>k\<close> replies, each reply with its own \<open>ts\<close>, which is not
  the parent's, and with the parent's \<open>ts\<close> as \<open>thread_ts\<close>, a sync that returns leaves
  exactly \<open>k\<close> reply rows of the thread: rows of the channel whose \<open>thread_ts\<close> is the
  parent's \<open>ts\<close> and whose \<open>ts\<close> is not (the row of a parent that carries its own \<open>ts\<close>
  as \<open>thread_ts\<close> is not a reply row). This holds for the sync of the thread and for
  the sync of the parent message, which stores the parent first and then its thread,
  on a store with unique keys whose reply rows of that thread, if there are any, are
  among the fetched replies.
\<close>

theorem thread_replies_exclude_parent:
  assumes resp: "conversations_replies e cid tts = Inr (Some msgs)"
  shows "get_thread_replies e cid tts = drop 1 msgs
    \<and> (length msgs \<le> 1 \<longrightarrow> get_thread_replies e cid tts = [])
    \<and> (\<forall>s s'. distinct (map message_key (messages s))
          \<and> (\<forall>row\<in>set (messages s). row_channel_id row = cid \<and> row_thread_ts row = Some tts
                  \<and> row_ts row \<noteq> tts
                \<longrightarrow> row_ts row \<in> (\<lambda>r. ts (from_slack (fromtimestamp e) cid r)) ` set (drop 1 msgs))
          \<and> distinct (map (\<lambda>r. ts (from_slack (fromtimestamp e) cid r)) (drop 1 msgs))
          \<and> (\<forall>r\<in>set (drop 1 msgs).
                raw_thread_ts r = Some tts \<and> ts (from_slack (fromtimestamp e) cid r) \<noteq> tts)
          \<and> sync_thread_replies e cid tts s = (Inr (), s')
        \<longrightarrow> length (filter (\<lambda>row. row_channel_id row = cid \<and> row_thread_ts row = Some tts
                                \<and> row_ts row \<noteq> tts) (messages s'))
            = length (drop 1 msgs))
    \<and> (\<forall>s s' oldest parent. distinct (map message_key (messages s))
          \<and> (\<forall>row\<in>set (messages s). row_channel_id row = cid \<and> row_thread_ts row = Some tts
                  \<and> row_ts row \<noteq> tts
                \<longrightarrow> row_ts row \<in> (\<lambda>r. ts (from_slack (fromtimestamp e) cid r)) ` set (drop 1 msgs))
          \<and> ts (from_slack (fromtimestamp e) cid parent) = tts
          \<and> 0 < reply_count (from_slack (fromtimestamp e) cid parent)
          \<and> \<not> already_seen oldest tts
          \<and> distinct (map (\<lambda>r. ts (from_slack (fromtimestamp e) cid r)) (drop 1 msgs))
          \<and> (\<forall>r\<in>set (drop 1 msgs).
                raw_thread_ts r = Some tts \<and> ts (from_slack (fromtimestamp e) cid r) \<noteq> tts)
          \<and> sync_message e cid oldest parent s = (Inr (), s')
        \<longrightarrow> length (filter (\<lambda>row. row_channel_id row = cid \<and> row_thread_ts row = Some tts
                                \<and> row_ts row \<noteq> tts) (messages s'))
            = length (drop 1 msgs))"
proof -
  have g: "get_thread_replies e cid tts = drop 1 msgs"
    using resp by (rule get_thread_replies_drop)
  have e: "get_thread_replies e cid tts = []" if "length msgs \<le> 1"
    using g that by simp
  have a: "length (filter (\<lambda>row. row_channel_id row = cid \<and> row_thread_ts row = Some tts
                                \<and> row_ts row \<noteq> tts) (messages s'))
            = length (drop 1 msgs)"
    if "distinct (map message_key (messages s))"
      "\<forall>row\<in>set (messages s). row_channel_id row = cid \<and> row_thread_ts row = Some tts
                  \<and> row_ts row \<noteq> tts
                \<longrightarrow> row_ts row \<in> (\<lambda>r. ts (from_slack (fromtimestamp e) cid r)) ` set (drop 1 msgs)"
      "distinct (map (\<lambda>r. ts (from_slack (fromtimestamp e) cid r)) (drop 1 msgs))"
      "\<forall>r\<in>set (drop 1 msgs).
                raw_thread_ts r = Some tts \<and> ts (from_slack (fromtimestamp e) cid r) \<noteq> tts"
      "sync_thread_replies e cid tts s = (Inr (), s')" for s s'
    using reply_rows_after_thread_sync[of s cid tts e s'] that g by simp
  have b: "length (filter (\<lambda>row. row_channel_id row = cid \<and> row_thread_ts row = Some tts
                                \<and> row_ts row \<noteq> tts) (messages s'))
            = length (drop 1 msgs)"
    if "distinct (map message_key (messages s))"
      "\<forall>row\<in>set (messages s). row_channel_id row = cid \<and> row_thread_ts row = Some tts
                  \<and> row_ts row \<noteq> tts
                \<longrightarrow> row_ts row \<in> (\<lambda>r. ts (from_slack (fromtimestamp e) cid r)) ` set (drop 1 msgs)"
      "ts (from_slack (fromtimestamp e) cid parent) = tts"
      "0 < reply_count (from_slack (fromtimestamp e) cid parent)"
      "\<not> already_seen oldest tts"
      "distinct (map (\<lambda>r. ts (from_slack (fromtimestamp e) cid r)) (drop 1 msgs))"
      "\<forall>r\<in>set (drop 1 msgs).
                raw_thread_ts r = Some tts \<and> ts (from_slack (fromtimestamp e) cid r) \<noteq> tts"
      "sync_message e cid oldest parent s = (Inr (), s')" for s s' oldest parent
    using reply_rows_after_parent_sync[of s cid tts e parent oldest s'] that g by simp
  show ?thesis
    using g e a b by (intro conjI allI impI) blast+
qed

theorem thread_replies_exclude_parent_witness:
  "get_thread_replies thread_remote ''C1'' ''200.0'' = drop 1 thread_page
   \<and> length (drop 1 thread_page) = 2
   \<and> get_channel_history thread_remote ''C1'' None = [hd thread_page]
   \<and> fst (sync_channel_messages thread_remote sample_channel sample_store) = Inr ()
   \<and> length (filter (\<lambda>row. row_channel_id row = ''C1'' \<and> row_thread_ts row = Some ''200.0''
                             \<and> row_ts row \<noteq> ''200.0'')
               (messages (snd (sync_channel_messages thread_remote sample_channel sample_store)))) = 2
   \<and> map row_ts (messages (snd (sync_channel_messages thread_remote sample_channel sample_store)))
       = [''200.0'', ''200.1'', ''200.2'']
   \<and> fst (sync_message thread_remote ''C1'' None (hd thread_page) sample_store) = Inr ()
   \<and> length (filter (\<lambda>row. row_channel_id row = ''C1'' \<and> row_thread_ts row = Some ''200.0''
                             \<and> row_ts row \<noteq> ''200.0'')
               (messages (snd (sync_message thread_remote ''C1'' None (hd thread_page) sample_store)))) = 2"
proof -
  have h: "conversations_replies thread_remote ''C1'' ''200.0'' = Inr (Some thread_page)"
    by (simp add: thread_remote_def)
  from thread_replies_exclude_parent[OF h] show ?thesis
    by (simp add: thread_remote_def thread_page_def sample_defs model_defs)
qed

subsection \<open>Idempotence\<close>

lemma set_add_keys: "set (foldl add_key l ks) = set l \<union> set ks"
  by (induction ks arbitrary: l) (auto simp: add_key_def)

lemma distinct_add_keys: "distinct l \<Longrightarrow> distinct (foldl add_key l ks)"
  by (induction ks arbitrary: l) (auto simp: add_key_def)

lemma add_keys_known: "set ks \<subseteq> set l \<Longrightarrow> foldl add_key l ks = l"
  by (induction ks arbitrary: l) (auto simp: add_key_def)

lemma upsert_message_key_list:
  assumes "upsert_message e m s = (Inr i, s')"
  shows "key_list s' = add_key (key_list s) (channel_id m, ts m)"
  using upsert_message_keys[OF assms] by (simp add: key_list_def add_key_def)

lemma sync_reply_key_list:
  assumes "sync_reply e cid x s = (Inr (), s')"
  shows "key_list s' = add_key (key_list s) (raw_key e cid x)"
proof -
  from sync_reply_returns[OF assms] obtain i s1 where
    up: "upsert_message e (from_slack (fromtimestamp e) cid x) s = (Inr i, s1)"
    and same: "messages s' = messages s1" by blast
  have "channel_id (from_slack (fromtimestamp e) cid x) = cid" by (simp add: from_slack_def Let_def)
  then show ?thesis
    using upsert_message_key_list[OF up] same by (simp add: key_list_def raw_key_def)
qed

text \<open>A loop whose body adds the keys \<open>g x\<close> adds the keys of all its elements.\<close>

lemma for_each_key_list:
  assumes step: "\<And>x t t'. body x t = (Inr (), t') \<Longrightarrow> key_list t' = foldl add_key (key_list t) (g x)"
  shows "for_each body xs s = (Inr (), s') \<Longrightarrow> key_list s' = foldl add_key (key_list s) (concat (map g xs))"
proof (induction xs arbitrary: s)
  case Nil
  then show ?case by simp
next
  case (Cons x xs)
  obtain r s1 where b: "body x s = (r, s1)" by (cases "body x s")
  show ?case
  proof (cases r)
    case (Inl err)
    then show ?thesis using Cons.prems b by simp
  next
    case (Inr u)
    then have rest: "for_each body xs s1 = (Inr (), s')" using Cons.prems b by simp
    have "key_list s1 = foldl add_key (key_list s) (g x)" using step[of x s s1] b Inr by simp
    then show ?thesis using Cons.IH[OF rest] by simp
  qed
qed

lemma sync_thread_replies_key_list:
  assumes "sync_thread_replies e cid tts s = (Inr (), s')"
  shows "key_list s' = foldl add_key (key_list s) (map (raw_key e cid) (get_thread_replies e cid tts))"
proof -
  have "key_list s' = foldl add_key (key_list s)
      (concat (map (\<lambda>x. [raw_key e cid x]) (get_thread_replies e cid tts)))"
    using assms unfolding sync_thread_replies_def
    by (rule for_each_key_list[rotated]) (simp add: sync_reply_key_list)
  moreover have "concat (map (\<lambda>x. [raw_key e cid x]) xs) = map (raw_key e cid) xs" for xs
    by (induction xs) simp_all
  ultimately show ?thesis by simp
qed

lemma sync_message_key_list:
  assumes "sync_message e cid oldest m s = (Inr (), s')"
  shows "key_list s' = foldl add_key (key_list s) (message_keys e cid oldest m)"
proof (cases "already_seen oldest (ts (from_slack (fromtimestamp e) cid m))")
  case True
  then show ?thesis using assms by (simp add: sync_message_def message_keys_def returns_def Let_def)
next
  case False
  let ?msg = "from_slack (fromtimestamp e) cid m"
  let ?thread = "if reply_count ?msg > 0 then sync_thread_replies e cid (ts ?msg) else returns ()"
  have run: "and_then (upsert_message e ?msg) (\<lambda>message_id.
           and_then (store_reactions e message_id (raw_reactions m)) (\<lambda>u.
           and_then ?thread (\<lambda>u. cache_author e (user_id ?msg)))) s = (Inr (), s')"
    using assms False by (simp add: sync_message_def Let_def)
  from and_then_returns[OF run] obtain i s1 where up: "upsert_message e ?msg s = (Inr i, s1)"
    and r1: "and_then (store_reactions e i (raw_reactions m)) (\<lambda>u.
           and_then ?thread (\<lambda>u. cache_author e (user_id ?msg))) s1 = (Inr (), s')" by blast
  from and_then_returns[OF r1] obtain u2 s2 where sr: "store_reactions e i (raw_reactions m) s1 = (Inr u2, s2)"
    and r2: "and_then ?thread (\<lambda>u. cache_author e (user_id ?msg)) s2 = (Inr (), s')" by blast
  from and_then_returns[OF r2] obtain u3 s3 where th: "?thread s2 = (Inr u3, s3)"
    and ca: "cache_author e (user_id ?msg) s3 = (Inr (), s')" by blast
  have cm: "channel_id ?msg = cid" by (simp add: from_slack_def Let_def)
  have k1: "key_list s1 = add_key (key_list s) (raw_key e cid m)"
    using upsert_message_key_list[OF up] cm by (simp add: raw_key_def)
  have k2: "key_list s2 = key_list s1"
    using store_reactions_messages[of e i "raw_reactions m" s1] sr by (simp add: key_list_def)
  have k3: "key_list s3 = foldl add_key (key_list s2)
      (if reply_count ?msg > 0 then map (raw_key e cid) (get_thread_replies e cid (ts ?msg)) else [])"
  proof (cases "reply_count ?msg > 0")
    case True
    then have "sync_thread_replies e cid (ts ?msg) s2 = (Inr (), s3)" using th by simp
    from sync_thread_replies_key_list[OF this] show ?thesis using True by simp
  next
    case False
    then show ?thesis using th by (simp add: returns_def)
  qed
  have k4: "key_list s' = key_list s3"
    using cache_author_messages[of e "user_id ?msg" s3] ca by (simp add: key_list_def)
  show ?thesis
    using False k1 k2 k3 k4 by (simp add: message_keys_def Let_def)
qed

lemma sync_channel_messages_key_list:
  assumes "sync_channel_messages e ch s = (Inr (), s')"
  shows "key_list s' = foldl add_key (key_list s) (channel_keys e (ch_id ch) (stored_cursor (ch_id ch) s))"
proof -
  let ?cid = "ch_id ch"
  let ?o = "stored_cursor ?cid s"
  let ?page = "get_channel_history e ?cid ?o"
  note u = sync_channel_messages_unfold[of e ch s]
  have ok: "\<not> engine_raises e (SelectSyncState ?cid)"
    using assms u by (auto split: if_splits)
  show ?thesis
  proof (cases ?page)
    case Nil
    then have "s' = s" using assms u ok by simp
    then show ?thesis using Nil by (simp add: channel_keys_def)
  next
    case (Cons newest older)
    obtain r1 s1 where l: "for_each (sync_message e ?cid ?o) (rev ?page) s = (r1, s1)"
      by (cases "for_each (sync_message e ?cid ?o) (rev ?page) s")
    have r1: "r1 = Inr ()" using assms u ok Cons l by (cases r1) auto
    have k1: "key_list s1 = foldl add_key (key_list s) (channel_keys e ?cid ?o)"
      unfolding channel_keys_def
      using l[unfolded r1] by (rule for_each_key_list[rotated]) (rule sync_message_key_list)
    have "messages s' = messages s1"
    proof (cases "truthy (raw_ts newest)")
      case True
      let ?st = "\<lparr>ss_channel_id = ?cid, last_ts = raw_ts newest, last_sync_at = None\<rparr>"
      have "upsert_sync_state e ?st s1 = (Inr (), s')"
        using assms u ok Cons l r1 True by simp
      then show ?thesis by (auto simp: upsert_sync_state_def split: if_splits)
    next
      case False
      then show ?thesis using assms u ok Cons l r1 by simp
    qed
    then show ?thesis using k1 by (simp add: key_list_def)
  qed
qed

lemma sync_channel_messages_channels:
  "channels (snd (sync_channel_messages e ch s)) = channels s"
proof -
  have loop: "channels (snd (for_each (sync_message e c oldest) ms t)) = channels t" for c oldest ms t
    by (rule for_each_keeps) (rule sync_message_frame, simp_all)
  have up: "channels (snd (upsert_sync_state e st t)) = channels t" for st t
    by (simp add: upsert_sync_state_def)
  show ?thesis
    unfolding sync_channel_messages_unfold
    using loop up
    by (auto split: list.splits prod.splits sum.splits simp: split_beta)
qed


lemma stored_cursor_other_channel:
  assumes "sync_channel_messages e ch s = (outcome, s')" "c \<noteq> ch_id ch"
  shows "stored_cursor c s' = stored_cursor c s"
  using cursor_after_channel_sync[OF assms(1) refl, of c] assms(2) by simp

lemma covered_after_sync:
  assumes run: "sync_channel_messages e ch s = (Inr (), s')"
    and remote: "\<forall>cid oldest newest older.
        get_channel_history e cid oldest = newest # older \<and> truthy (raw_ts newest) \<longrightarrow>
        (\<forall>m\<in>set (get_channel_history e cid (raw_ts newest)).
            ts (from_slack (fromtimestamp e) cid m) \<le> ts (from_slack (fromtimestamp e) cid newest))"
  shows "covered e (ch_id ch) s'"
proof -
  let ?cid = "ch_id ch"
  let ?o = "stored_cursor ?cid s"
  let ?page = "get_channel_history e ?cid ?o"
  note cur = cursor_after_channel_sync[OF run refl, of ?cid]
  note keys = sync_channel_messages_key_list[OF run]
  show ?thesis
  proof (cases "?page \<noteq> [] \<and> truthy (raw_ts (hd ?page))")
    case False
    then have c: "stored_cursor ?cid s' = ?o" using cur by auto
    have "set (channel_keys e ?cid ?o) \<subseteq> set (key_list s')"
      using keys by (simp add: set_add_keys)
    then show ?thesis using c by (simp add: covered_def)
  next
    case True
    then obtain newest older where page: "?page = newest # older" by (cases ?page) auto
    then have tr: "truthy (raw_ts newest)" using True by simp
    then obtain n where n: "raw_ts newest = Some n" "n \<noteq> []" by (cases "raw_ts newest") auto
    have c: "stored_cursor ?cid s' = Some n" using cur True page n by simp
    have tn: "ts (from_slack (fromtimestamp e) ?cid newest) = n"
      using n by (simp add: from_slack_def Let_def)
    have seen: "already_seen (Some n) (ts (from_slack (fromtimestamp e) ?cid m))"
      if "m \<in> set (get_channel_history e ?cid (Some n))" for m
    proof -
      have "ts (from_slack (fromtimestamp e) ?cid m) \<le> ts (from_slack (fromtimestamp e) ?cid newest)"
        using remote page tr that n by metis
      then show ?thesis using n tn by (simp add: already_seen_def)
    qed
    have "message_keys e ?cid (Some n) m = []" if "m \<in> set (get_channel_history e ?cid (Some n))" for m
      using seen[OF that] by (simp add: message_keys_def Let_def)
    then have "channel_keys e ?cid (Some n) = []"
      by (simp add: channel_keys_def)
    then show ?thesis using c by (simp add: covered_def)
  qed
qed

lemma covered_preserved:
  assumes run: "sync_channel_messages e ch s = (Inr (), s')"
    and "c \<noteq> ch_id ch" and "covered e c s"
  shows "covered e c s'"
proof -
  have "stored_cursor c s' = stored_cursor c s"
    using stored_cursor_other_channel[OF run assms(2)] .
  moreover have "set (key_list s) \<subseteq> set (key_list s')"
    using sync_channel_messages_key_list[OF run] by (simp add: set_add_keys)
  ultimately show ?thesis using assms(3) by (auto simp: covered_def)
qed

lemma covered_sync_same_keys:
  assumes run: "sync_channel_messages e ch s = (Inr (), s')"
    and "covered e (ch_id ch) s"
  shows "key_list s' = key_list s"
  using sync_channel_messages_key_list[OF run] assms(2)
  by (simp add: covered_def add_keys_known)

lemma first_cycle_covers:
  assumes run: "for_each (sync_channel_messages e) chs s = (Inr (), s')"
    and dc: "distinct (map ch_id chs)"
    and remote: "\<forall>cid oldest newest older.
        get_channel_history e cid oldest = newest # older \<and> truthy (raw_ts newest) \<longrightarrow>
        (\<forall>m\<in>set (get_channel_history e cid (raw_ts newest)).
            ts (from_slack (fromtimestamp e) cid m) \<le> ts (from_slack (fromtimestamp e) cid newest))"
  shows "(\<forall>ch\<in>set chs. covered e (ch_id ch) s') \<and> channels s' = channels s
    \<and> (distinct (key_list s) \<longrightarrow> distinct (key_list s'))"
proof -
  let ?I = "\<lambda>seen t. (\<forall>ch\<in>set seen. covered e (ch_id ch) t) \<and> channels t = channels s
    \<and> (distinct (key_list s) \<longrightarrow> distinct (key_list t))"
  show ?thesis
  proof (rule for_each_prefix_rule[where I = ?I, OF run])
    show "?I [] s" by simp
  next
    fix seen and x :: channel and rest t t'
    assume pre: "chs = seen @ x # rest" and inv: "?I seen t"
      and b: "sync_channel_messages e x t = (Inr (), t')"
    have new: "covered e (ch_id x) t'" using covered_after_sync[OF b remote] .
    have old: "covered e (ch_id ch) t'" if "ch \<in> set seen" for ch
    proof -
      have "ch_id x \<notin> ch_id ` set seen" using dc pre by auto
      moreover have "ch_id ch \<in> ch_id ` set seen" using that by (rule imageI)
      ultimately have "ch_id ch \<noteq> ch_id x" by metis
      then show ?thesis using covered_preserved[OF b] inv that by blast
    qed
    have ch: "channels t' = channels s"
      using sync_channel_messages_channels[of e x t] b inv by simp
    have "distinct (key_list t')" if "distinct (key_list s)"
      using sync_channel_messages_key_list[OF b] inv that by (simp add: distinct_add_keys)
    then show "?I (seen @ [x]) t'" using new old ch by auto
  qed
qed

lemma second_cycle_same_keys:
  assumes run: "for_each (sync_channel_messages e) chs s = (Inr (), s')"
    and dc: "distinct (map ch_id chs)"
    and cov: "\<forall>ch\<in>set chs. covered e (ch_id ch) s"
  shows "key_list s' = key_list s"
proof -
  let ?I = "\<lambda>seen t. key_list t = key_list s
    \<and> (\<forall>ch\<in>set chs. ch_id ch \<notin> ch_id ` set seen \<longrightarrow> covered e (ch_id ch) t)"
  have "?I chs s'"
  proof (rule for_each_prefix_rule[where I = ?I, OF run])
    show "?I [] s" using cov by simp
  next
    fix seen and x :: channel and rest t t'
    assume pre: "chs = seen @ x # rest" and inv: "?I seen t"
      and b: "sync_channel_messages e x t = (Inr (), t')"
    have "ch_id x \<notin> ch_id ` set seen" using dc pre by auto
    moreover have "x \<in> set chs" using pre by simp
    ultimately have "covered e (ch_id x) t" using inv by blast
    then have k: "key_list t' = key_list t" using covered_sync_same_keys[OF b] by simp
    have "covered e (ch_id ch) t'"
      if "ch \<in> set chs" "ch_id ch \<notin> ch_id ` set (seen @ [x])" for ch
    proof -
      have "ch_id ch \<noteq> ch_id x" "ch_id ch \<notin> ch_id ` set seen" using that(2) by auto
      then show ?thesis using covered_preserved[OF b] inv that(1) by blast
    qed
    then show "?I (seen @ [x]) t'" using k inv by simp
  qed
  then show ?thesis by simp
qed

lemma sync_all_messages_returns:
  assumes "sync_all_messages e s = (Inr (), s')"
  shows "for_each (sync_channel_messages e) (filter (\<lambda>c. \<not> is_archived c) (channels s)) s = (Inr (), s')"
  using assms by (auto simp: sync_all_messages_def and_then_def get_all_channels_def split: if_splits)

lemma skipped_message_changes_nothing:
  "already_seen oldest (ts (from_slack (fromtimestamp e) cid m)) \<Longrightarrow>
     sync_message e cid oldest m t = (Inr (), t)"
  by (simp add: sync_message_def returns_def Let_def)

text \<open>
  C4. Let the store have unique message keys and unique channel ids, and let the remote
  be unchanged: after a fetch whose newest entry has the non-empty \<open>ts\<close> \<open>n\<close>, a fetch
  of the channel from \<open>n\<close> returns no message newer than \<open>n\<close>. When a sync cycle
  returns and a second cycle on the resulting store returns, the second cycle leaves
  the list of keys \<open>(channel_id, ts)\<close> as the first left it: no new message row and no
  duplicate key. The two reasons hold for every store: a message whose \<open>ts\<close> is at
  most the cursor is skipped and changes nothing, and an upsert of a stored key leaves
  the list of keys as it is.
\<close>

theorem sync_twice_adds_no_rows:
  assumes uniq: "distinct (map message_key (messages s0))"
    and chans: "distinct (map ch_id (channels s0))"
    and remote: "\<forall>cid oldest newest older.
        get_channel_history e cid oldest = newest # older \<and> truthy (raw_ts newest) \<longrightarrow>
        (\<forall>m\<in>set (get_channel_history e cid (raw_ts newest)).
            ts (from_slack (fromtimestamp e) cid m) \<le> ts (from_slack (fromtimestamp e) cid newest))"
    and run1: "sync_all_messages e s0 = (Inr (), s1)"
    and run2: "sync_all_messages e s1 = (Inr (), s2)"
  shows "map message_key (messages s2) = map message_key (messages s1)
    \<and> length (messages s2) = length (messages s1)
    \<and> distinct (map message_key (messages s1))
    \<and> distinct (map message_key (messages s2))
    \<and> (\<forall>cid oldest m t. already_seen oldest (ts (from_slack (fromtimestamp e) cid m)) \<longrightarrow>
          sync_message e cid oldest m t = (Inr (), t))
    \<and> (\<forall>msg t i t'. upsert_message e msg t = (Inr i, t')
          \<and> (channel_id msg, ts msg) \<in> set (map message_key (messages t)) \<longrightarrow>
          map message_key (messages t') = map message_key (messages t))"
proof -
  let ?chs = "filter (\<lambda>c. \<not> is_archived c) (channels s0)"
  have dc: "distinct (map ch_id ?chs)" using chans by (rule distinct_map_filter)
  note l1 = sync_all_messages_returns[OF run1]
  note c1 = first_cycle_covers[OF l1 dc remote]
  have same_chs: "filter (\<lambda>c. \<not> is_archived c) (channels s1) = ?chs" using c1 by simp
  have l2: "for_each (sync_channel_messages e) ?chs s1 = (Inr (), s2)"
    using sync_all_messages_returns[OF run2] same_chs by simp
  have k: "key_list s2 = key_list s1"
    using second_cycle_same_keys[OF l2 dc] c1 by blast
  have d1: "distinct (key_list s1)" using c1 uniq by (simp add: key_list_def)
  have "length (key_list s2) = length (key_list s1)" using k by simp
  then have len: "length (messages s2) = length (messages s1)"
    by (simp add: key_list_def)
  have inplace: "map message_key (messages t') = map message_key (messages t)"
    if "upsert_message e msg t = (Inr i, t')"
      "(channel_id msg, ts msg) \<in> set (map message_key (messages t))" for msg t i t'
    using upsert_message_keys[OF that(1)] that(2) by simp
  show ?thesis
    using k d1 len skipped_message_changes_nothing inplace
    by (simp add: key_list_def) blast
qed

lemma inclusive_remote_settled:
  "\<forall>cid oldest newest older.
        get_channel_history (inclusive_remote two_message_page) cid oldest = newest # older
        \<and> truthy (raw_ts newest) \<longrightarrow>
        (\<forall>m\<in>set (get_channel_history (inclusive_remote two_message_page) cid (raw_ts newest)).
            ts (from_slack (fromtimestamp (inclusive_remote two_message_page)) cid m)
            \<le> ts (from_slack (fromtimestamp (inclusive_remote two_message_page)) cid newest))"
proof (intro allI impI)
  fix cid oldest newest older
  assume a: "get_channel_history (inclusive_remote two_message_page) cid oldest = newest # older
        \<and> truthy (raw_ts newest)"
  have lt: "''100.000001'' < ''200.000002''" by simp
  have "newest = sample_message ''200.000002''"
  proof (cases oldest)
    case None
    then show ?thesis using a by (simp add: inclusive_remote_def remote_with_def two_message_page_def)
  next
    case (Some t)
    show ?thesis
    proof (cases "t \<le> ''200.000002''")
      case True
      then show ?thesis
        using a Some by (simp add: inclusive_remote_def remote_with_def two_message_page_def sample_message_def)
    next
      case False
      then have "\<not> t \<le> ''100.000001''" using lt by (meson less_imp_le order_trans)
      then show ?thesis
        using a Some False
        by (simp add: inclusive_remote_def remote_with_def two_message_page_def sample_message_def)
    qed
  qed
  then show "\<forall>m\<in>set (get_channel_history (inclusive_remote two_message_page) cid (raw_ts newest)).
            ts (from_slack (fromtimestamp (inclusive_remote two_message_page)) cid m)
            \<le> ts (from_slack (fromtimestamp (inclusive_remote two_message_page)) cid newest)"
    by (simp add: inclusive_remote_def remote_with_def two_message_page_def sample_message_def
          from_slack_def)
qed

theorem sync_twice_adds_no_rows_witness:
  "fst (sync_all_messages (inclusive_remote two_message_page) sample_store) = Inr ()
   \<and> map message_key (messages (snd (sync_all_messages (inclusive_remote two_message_page) sample_store)))
       = [(''C1'', ''100.000001''), (''C1'', ''200.000002'')]
   \<and> get_channel_history (inclusive_remote two_message_page) ''C1'' (Some ''200.000002'')
       = [sample_message ''200.000002'']
   \<and> fst (sync_all_messages (inclusive_remote two_message_page)
            (snd (sync_all_messages (inclusive_remote two_message_page) sample_store))) = Inr ()
   \<and> map message_key
        (messages (snd (sync_all_messages (inclusive_remote two_message_page)
                          (snd (sync_all_messages (inclusive_remote two_message_page) sample_store)))))
       = [(''C1'', ''100.000001''), (''C1'', ''200.000002'')]"
proof -
  let ?e = "inclusive_remote two_message_page"
  let ?s1 = "snd (sync_all_messages ?e sample_store)"
  let ?s2 = "snd (sync_all_messages ?e ?s1)"
  have h1: "distinct (map message_key (messages sample_store))" by (simp add: sample_defs)
  have h2: "distinct (map ch_id (channels sample_store))" by (simp add: sample_defs)
  have f1: "fst (sync_all_messages ?e sample_store) = Inr ()"
    by (simp add: inclusive_remote_def sample_defs model_defs)
  have r1: "sync_all_messages ?e sample_store = (Inr (), ?s1)"
    using f1 by (simp add: prod_eq_iff)
  have k1: "map message_key (messages ?s1) = [(''C1'', ''100.000001''), (''C1'', ''200.000002'')]"
    by (simp add: inclusive_remote_def sample_defs model_defs)
  have f2: "fst (sync_all_messages ?e ?s1) = Inr ()"
    by (simp add: inclusive_remote_def sample_defs model_defs)
  have r2: "sync_all_messages ?e ?s1 = (Inr (), ?s2)"
    using f2 by (simp add: prod_eq_iff)
  have g: "get_channel_history ?e ''C1'' (Some ''200.000002'') = [sample_message ''200.000002'']"
    by (simp add: inclusive_remote_def sample_defs)
  from sync_twice_adds_no_rows[OF h1 h2 inclusive_remote_settled r1 r2] show ?thesis
    using f1 f2 k1 g by simp
qed

subsection \<open>The status report\<close>

lemmas status_defs = dm_channel_def dm_row_def dm_store_def sample_like_def
  order_by_created_at_desc_def created_after_def get_unread_mentions_def dm_rows_def
  get_dm_messages_def get_threads_with_replies_def py_prefix_def truncate_def get_message_link_def
  shown_name_def message_item_def get_mentions_def get_dms_def status_thread_replies_def
  sort_key_of_def get_status_def row_to_message_def find_channel_def find_user_def Let_def

lemma set_order_by [simp]: "set (order_by_created_at_desc col rows) = set rows"
  by (simp add: order_by_created_at_desc_def)

lemma length_order_by [simp]: "length (order_by_created_at_desc col rows) = length rows"
  by (simp add: order_by_created_at_desc_def)

lemma dm_rows_iff:
  "m \<in> set (dm_rows (Some since) s) \<longleftrightarrow>
     m \<in> set (messages s)
     \<and> (\<exists>c\<in>set (channels s). ch_id c = row_channel_id m \<and> channel_type c = ''im'')
     \<and> (\<exists>t. row_created_at m = Some t \<and> since < t)"
  by (auto simp: dm_rows_def created_after_def split: option.splits)

text \<open>
  C7, as amended. Every item of the direct-message tier has priority \<open>HIGH\<close> and is
  built from a message that lives in a channel of type \<open>'im'\<close> (a group channel,
  \<open>'mpim'\<close>, does not count), was created after the start of the lookback window and
  whose \<open>user_id\<close> is not the current identity; when there are at most 50 such
  messages in the window (the query's \<open>LIMIT\<close>), the tier holds exactly those.
\<close>

theorem dm_tier_im_only:
  "(\<forall>item\<in>set (get_dms me since s).
      priority item = HIGH
      \<and> (\<exists>m\<in>set (dm_rows (Some since) s).
            row_user_id m \<noteq> Some me
            \<and> item = message_item HIGH ''Direct message'' s (row_to_message m)))
   \<and> (length (dm_rows (Some since) s) \<le> 50 \<longrightarrow>
        set (get_dms me since s)
        = (\<lambda>m. message_item HIGH ''Direct message'' s (row_to_message m))
            ` {m \<in> set (dm_rows (Some since) s). row_user_id m \<noteq> Some me})
   \<and> (\<forall>m. m \<in> set (dm_rows (Some since) s) \<longleftrightarrow>
          m \<in> set (messages s)
          \<and> (\<exists>c\<in>set (channels s). ch_id c = row_channel_id m \<and> channel_type c = ''im'')
          \<and> (\<exists>t. row_created_at m = Some t \<and> since < t))"
proof (intro conjI ballI impI allI)
  fix item assume "item \<in> set (get_dms me since s)"
  then obtain m where m: "m \<in> set (take 50 (order_by_created_at_desc row_created_at (dm_rows (Some since) s)))"
    "user_id (row_to_message m) \<noteq> Some me"
    "item = message_item HIGH ''Direct message'' s (row_to_message m)"
    by (auto simp: get_dms_def get_dm_messages_def)
  from m(1) have in_rows: "m \<in> set (dm_rows (Some since) s)"
    using set_take_subset[of 50 "order_by_created_at_desc row_created_at (dm_rows (Some since) s)"] by auto
  show "priority item = HIGH" using m(3) by (simp add: message_item_def)
  show "\<exists>m\<in>set (dm_rows (Some since) s).
            row_user_id m \<noteq> Some me
            \<and> item = message_item HIGH ''Direct message'' s (row_to_message m)"
    using in_rows m(2,3) by (auto simp: row_to_message_def)
next
  assume "length (dm_rows (Some since) s) \<le> 50"
  then have "take 50 (order_by_created_at_desc row_created_at (dm_rows (Some since) s))
      = order_by_created_at_desc row_created_at (dm_rows (Some since) s)"
    by simp
  then show "set (get_dms me since s)
        = (\<lambda>m. message_item HIGH ''Direct message'' s (row_to_message m))
            ` {m \<in> set (dm_rows (Some since) s). row_user_id m \<noteq> Some me}"
    by (auto simp: get_dms_def get_dm_messages_def row_to_message_def)
next
  fix m
  show "m \<in> set (dm_rows (Some since) s) \<longleftrightarrow>
          m \<in> set (messages s)
          \<and> (\<exists>c\<in>set (channels s). ch_id c = row_channel_id m \<and> channel_type c = ''im'')
          \<and> (\<exists>t. row_created_at m = Some t \<and> since < t)"
    by (rule dm_rows_iff)
qed

theorem dm_tier_im_only_witness:
  "map (\<lambda>x. (priority x, si_channel_id x, message_ts x)) (get_dms ''U1'' 50 dm_store)
     = [(HIGH, ''D1'', ''130.000001''), (HIGH, ''D1'', ''100.000001'')]
   \<and> length (dm_rows (Some 50) dm_store) = 3"
  using dm_tier_im_only[of "''U1''" 50 dm_store]
  by (simp add: status_defs less_eq_prod_def)

text \<open>The claim as stated fails for a group channel: the second message of the store
  is in \<open>G1\<close>, of type \<open>'mpim'\<close>, in the window and written by \<open>U3\<close>, and the tier of
  \<open>U1\<close> has no item for it.\<close>

theorem group_dm_counterexample:
  "channel_type (channels dm_store ! 1) = ''mpim''
   \<and> row_channel_id (messages dm_store ! 1) = ch_id (channels dm_store ! 1)
   \<and> row_user_id (messages dm_store ! 1) = Some ''U3''
   \<and> row_created_at (messages dm_store ! 1) = Some 110
   \<and> message_item HIGH ''Direct message'' dm_store (row_to_message (messages dm_store ! 1))
        \<notin> set (get_dms ''U1'' 50 dm_store)"
  by (simp add: status_defs less_eq_prod_def)

lemma priority_value_inj: "priority_value p = priority_value q \<longleftrightarrow> p = q"
  by (cases p; cases q) simp_all

text \<open>
  C8. In every report that \<open>get_status\<close> returns, for any two positions \<open>a\<close> and \<open>b\<close>
  of the item list: if the priority at \<open>a\<close> is below the priority at \<open>b\<close> (lower value,
  more urgent) then \<open>a\<close> is before \<open>b\<close>; and if the two items share a priority and the
  timestamp at \<open>a\<close> is later than the timestamp at \<open>b\<close> then \<open>a\<close> is before \<open>b\<close> (an item
  without a timestamp sorts as the instant 0, as in the source's key).
\<close>

theorem status_items_sorted:
  assumes "get_status like uid now hours s = Inr report"
  shows "\<forall>a b. a < length (items report) \<and> b < length (items report) \<longrightarrow>
     (priority_value (priority (items report ! a)) < priority_value (priority (items report ! b))
        \<longrightarrow> a < b)
     \<and> (priority (items report ! a) = priority (items report ! b)
        \<and> (case timestamp (items report ! b) of None \<Rightarrow> 0 | Some t \<Rightarrow> t)
            < (case timestamp (items report ! a) of None \<Rightarrow> 0 | Some t \<Rightarrow> t)
        \<longrightarrow> a < b)"
proof -
  obtain xs where xs: "items report = sort_key sort_key_of xs"
    using assms by (auto simp: get_status_def Let_def split: option.splits if_splits)
  have sorted: "sorted (map sort_key_of (items report))"
    unfolding xs by (rule sorted_sort_key)
  have le: "sort_key_of (items report ! b) \<le> sort_key_of (items report ! a)"
    if "b \<le> a" "a < length (items report)" for a b
    using sorted_nth_mono[OF sorted, of b a] that by simp
  show ?thesis
  proof (intro allI impI conjI)
    fix a b
    assume len: "a < length (items report) \<and> b < length (items report)"
    assume lt: "priority_value (priority (items report ! a)) < priority_value (priority (items report ! b))"
    show "a < b"
    proof (rule ccontr)
      assume "\<not> a < b"
      then have "b \<le> a" by simp
      from le[OF this] len lt show False
        by (auto simp: sort_key_of_def less_eq_prod_def)
    qed
  next
    fix a b
    assume len: "a < length (items report) \<and> b < length (items report)"
    assume eq: "priority (items report ! a) = priority (items report ! b)
        \<and> (case timestamp (items report ! b) of None \<Rightarrow> 0 | Some t \<Rightarrow> t)
            < (case timestamp (items report ! a) of None \<Rightarrow> 0 | Some t \<Rightarrow> t)"
    show "a < b"
    proof (rule ccontr)
      assume "\<not> a < b"
      then have "b \<le> a" by simp
      from le[OF this] len eq show False
        by (auto simp: sort_key_of_def less_eq_prod_def)
    qed
  qed
qed

theorem status_items_sorted_witness:
  "map (\<lambda>x. (priority x, timestamp x))
        (items (projr (get_status sample_like (Some ''U1'') 3650 1 dm_store)))
     = [(CRITICAL, Some 110), (HIGH, Some 130), (HIGH, Some 100), (MEDIUM, Some 130)]"
proof -
  have h: "get_status sample_like (Some ''U1'') 3650 1 dm_store
      = Inr (projr (get_status sample_like (Some ''U1'') 3650 1 dm_store))"
    by (simp add: status_defs less_eq_prod_def)
  from status_items_sorted[OF h] show ?thesis
    by (simp add: status_defs less_eq_prod_def)
qed

subsection \<open>Search\<close>

lemmas search_defs = text_row_def text_store_def api_hit_def api_only_def sample_defs
  ascii_lower_def matches_here_def text_score_def text_search_rows_def text_search_def
  slack_api_search_def result_key_def result_pair_def search_def py_prefix_def
  order_by_created_at_desc_def row_to_message_def get_message_link_def Let_def

lemma unique_results_keep_first:
  "unique_results xs seen = keep_first_by result_key (filter (\<lambda>r. result_key r \<notin> set seen) xs)"
proof (induction xs arbitrary: seen)
  case Nil
  show ?case by simp
next
  case (Cons x xs)
  show ?case
  proof (cases "result_key x \<in> set seen")
    case True
    then show ?thesis using Cons.IH[of seen] by simp
  next
    case False
    have "filter (\<lambda>y. result_key y \<noteq> result_key x) (filter (\<lambda>r. result_key r \<notin> set seen) xs)
        = filter (\<lambda>r. result_key r \<notin> set (result_key x # seen)) xs"
      by (auto intro: filter_cong)
    then show ?thesis using False Cons.IH[of "result_key x # seen"] by simp
  qed
qed

lemma set_keep_first_by: "set (keep_first_by key xs) \<subseteq> set xs"
  by (induction key xs rule: keep_first_by.induct) auto

lemma distinct_keep_first_by: "distinct (map key (keep_first_by key xs))"
proof (induction key xs rule: keep_first_by.induct)
  case (1 key)
  show ?case by simp
next
  case (2 key x xs)
  have "key x \<notin> key ` set (keep_first_by key (filter (\<lambda>y. key y \<noteq> key x) xs))"
    using set_keep_first_by[of key "filter (\<lambda>y. key y \<noteq> key x) xs"] by auto
  then show ?case using 2 by simp
qed

lemma sorted_keep_first_by:
  fixes f :: "'a \<Rightarrow> 'b :: linorder"
  shows "sorted (map f xs) \<Longrightarrow> sorted (map f (keep_first_by key xs))"
proof (induction key xs rule: keep_first_by.induct)
  case (1 key)
  show ?case by simp
next
  case (2 key x xs)
  have s: "sorted (map f (filter (\<lambda>y. key y \<noteq> key x) xs))"
    using "2.prems" by (simp add: sorted_filter)
  have "\<forall>y\<in>set (keep_first_by key (filter (\<lambda>y. key y \<noteq> key x) xs)). f x \<le> f y"
    using "2.prems" set_keep_first_by[of key "filter (\<lambda>y. key y \<noteq> key x) xs"] by auto
  then show ?case using "2.IH"[OF s] by simp
qed

text \<open>On a list sorted by \<open>f\<close>, the kept occurrence of a key is one with the least
  \<open>f\<close> among the entries of that key.\<close>

lemma keep_first_by_least:
  fixes f :: "'a \<Rightarrow> 'b :: linorder"
  shows "sorted (map f xs) \<Longrightarrow> r \<in> set xs \<Longrightarrow>
    \<exists>u\<in>set (keep_first_by key xs). key u = key r \<and> f u \<le> f r"
proof (induction key xs rule: keep_first_by.induct)
  case (1 key)
  then show ?case by simp
next
  case (2 key x xs)
  show ?case
  proof (cases "key r = key x")
    case True
    have "f x \<le> f r" using "2.prems" by auto
    then show ?thesis using True by auto
  next
    case False
    then have r: "r \<in> set (filter (\<lambda>y. key y \<noteq> key x) xs)" using "2.prems" by auto
    have s: "sorted (map f (filter (\<lambda>y. key y \<noteq> key x) xs))"
      using "2.prems" by (simp add: sorted_filter)
    from "2.IH"[OF s r] show ?thesis by auto
  qed
qed

lemma keep_first_by_kept_least:
  fixes f :: "'a \<Rightarrow> 'b :: linorder"
  shows "sorted (map f xs) \<Longrightarrow> u \<in> set (keep_first_by key xs) \<Longrightarrow> r \<in> set xs \<Longrightarrow>
    key r = key u \<Longrightarrow> f u \<le> f r"
proof (induction key xs rule: keep_first_by.induct)
  case (1 key)
  then show ?case by simp
next
  case (2 key x xs)
  show ?case
  proof (cases "u = x")
    case True
    then show ?thesis using "2.prems" by auto
  next
    case False
    then have u: "u \<in> set (keep_first_by key (filter (\<lambda>y. key y \<noteq> key x) xs))"
      using "2.prems" by simp
    then have "u \<in> set (filter (\<lambda>y. key y \<noteq> key x) xs)"
      using set_keep_first_by[of key "filter (\<lambda>y. key y \<noteq> key x) xs"] by blast
    then have "key u \<noteq> key x" by simp
    then have r: "r \<in> set (filter (\<lambda>y. key y \<noteq> key x) xs)" using "2.prems" by auto
    have s: "sorted (map f (filter (\<lambda>y. key y \<noteq> key x) xs))"
      using "2.prems" by (simp add: sorted_filter)
    from "2.IH"[OF s u r "2.prems"(4)] show ?thesis .
  qed
qed

lemma keep_first_by_cong:
  "(\<And>x y. x \<in> set xs \<Longrightarrow> y \<in> set xs \<Longrightarrow> (key x = key y) = (key' x = key' y)) \<Longrightarrow>
     keep_first_by key xs = keep_first_by key' xs"
proof (induction key xs rule: keep_first_by.induct)
  case (1 key)
  show ?case by simp
next
  case (2 key x xs)
  have f: "filter (\<lambda>y. key y \<noteq> key x) xs = filter (\<lambda>y. key' y \<noteq> key' x) xs"
    by (rule filter_cong) (auto simp: "2.prems")
  have "keep_first_by key (filter (\<lambda>y. key y \<noteq> key x) xs)
      = keep_first_by key' (filter (\<lambda>y. key y \<noteq> key x) xs)"
    by (rule "2.IH") (auto simp: "2.prems")
  then show ?case using f by simp
qed

lemma split_at_first:
  "a \<notin> set xs \<Longrightarrow> a \<notin> set xs' \<Longrightarrow> xs @ a # ys = xs' @ a # ys' \<Longrightarrow> xs = xs' \<and> ys = ys'"
proof (induction xs arbitrary: xs')
  case Nil
  then show ?case by (cases xs') auto
next
  case (Cons x xs)
  then show ?case by (cases xs') auto
qed

text \<open>The joined key determines the pair where the \<open>ts\<close> have no colon.\<close>

lemma result_key_pair:
  assumes "CHR '':'' \<notin> set (ts (sr_message x))" "CHR '':'' \<notin> set (ts (sr_message y))"
  shows "(result_key x = result_key y) = (result_pair x = result_pair y)"
proof
  assume "result_key x = result_key y"
  then have "rev (ts (sr_message x)) @ CHR '':'' # rev (channel_id (sr_message x))
      = rev (ts (sr_message y)) @ CHR '':'' # rev (channel_id (sr_message y))"
    unfolding result_key_def by (metis append_Cons append_Nil rev.simps(2) rev_append rev_rev_ident append_assoc)
  from split_at_first[OF _ _ this] assms show "result_pair x = result_pair y"
    by (simp add: result_pair_def)
next
  assume "result_pair x = result_pair y"
  then show "result_key x = result_key y" by (simp add: result_pair_def result_key_def)
qed

lemma distinct_pairs_of_keys:
  assumes "distinct (map result_key rs)"
  shows "distinct (map result_pair rs)"
proof -
  have "result_key (rs ! i) \<noteq> result_key (rs ! j)" if "i < length rs" "j < length rs" "i \<noteq> j" for i j
    using assms that by (simp add: distinct_conv_nth)
  then have "result_pair (rs ! i) \<noteq> result_pair (rs ! j)"
    if "i < length rs" "j < length rs" "i \<noteq> j" for i j
    using that by (fastforce simp: result_key_def result_pair_def)
  then show ?thesis by (simp add: distinct_conv_nth)
qed


text \<open>
  C5. For every query and every combination of enabled sources, with a limit that is
  not negative or with the text source enabled (the engine refuses a negative limit, so
  a search with the text source that returns had none), a search that returns gives the
  concatenation of the results of the enabled sources, sorted by score descending,
  deduplicated keeping the first occurrence of each key, truncated to \<open>limit\<close>. The key
  of the source is the string \<open>channel_id:ts\<close>; where no \<open>ts\<close> of a result has a colon
  (a \<open>ts\<close> is a number written as a string) it determines the pair \<open>(channel_id, ts)\<close>,
  and the result is the deduplication by the pair. Every entry of the result has a
  score at least that of every result with its key, and where nothing was cut off every
  key of the concatenation is in the result. Consequently no two entries of the result
  share the same \<open>(channel_id, ts)\<close>, the result has at most \<open>limit\<close> entries, and it is
  sorted by score descending.
\<close>

theorem search_combination:
  assumes "use_text \<or> 0 \<le> limit"
    and "search se query limit use_vector use_text use_slack_api s = Inr found"
  shows "\<exists>vector_results text_results api_found.
      (if use_vector \<and> embedding_service se then vector_search se query limit else Inr [])
        = Inr vector_results
      \<and> (if use_text then text_search (ilike se) query limit s else Inr []) = Inr text_results
      \<and> (if use_slack_api then slack_api_search se query limit else Inr []) = Inr api_found
      \<and> found = take (nat limit)
          (keep_first_by result_key
             (sort_key (\<lambda>r. - score r) (vector_results @ text_results @ api_found)))
      \<and> ((\<forall>r\<in>set (vector_results @ text_results @ api_found).
             CHR '':'' \<notin> set (ts (sr_message r))) \<longrightarrow>
           found = take (nat limit)
             (keep_first_by result_pair
                (sort_key (\<lambda>r. - score r) (vector_results @ text_results @ api_found))))
      \<and> (\<forall>u\<in>set found. \<forall>r\<in>set (vector_results @ text_results @ api_found).
            result_key r = result_key u \<longrightarrow> score r \<le> score u)
      \<and> (\<forall>r\<in>set (vector_results @ text_results @ api_found).
            int (length found) < limit \<longrightarrow>
            (\<exists>u\<in>set found. result_key u = result_key r \<and> score r \<le> score u))
      \<and> int (length found) \<le> limit
      \<and> distinct (map result_pair found)
      \<and> sorted (map (\<lambda>r. - score r) found)"
proof -
  let ?vector = "if use_vector \<and> embedding_service se then vector_search se query limit else Inr []"
  let ?text = "if use_text then text_search (ilike se) query limit s else Inr []"
  let ?api = "if use_slack_api then slack_api_search se query limit else Inr []"
  obtain vector_results where vr: "?vector = Inr vector_results"
    using assms(2) by (cases ?vector) (auto simp: search_def)
  obtain text_results where tr: "?text = Inr text_results"
    using assms(2) vr by (cases ?text) (auto simp: search_def)
  obtain api_found where ar: "?api = Inr api_found"
    using assms(2) vr tr by (cases ?api) (auto simp: search_def)
  have lim: "0 \<le> limit"
  proof (cases use_text)
    case True
    then show ?thesis using tr by (auto simp: text_search_def split: if_splits)
  next
    case False
    then show ?thesis using assms(1) by simp
  qed
  let ?results = "vector_results @ text_results @ api_found"
  let ?sorted = "sort_key (\<lambda>r. - score r) ?results"
  let ?unique = "keep_first_by result_key ?sorted"
  have "found = py_prefix limit (unique_results ?sorted [])"
    using assms(2) vr tr ar by (auto simp: search_def Let_def)
  then have found: "found = take (nat limit) ?unique"
    using lim by (simp add: py_prefix_def unique_results_keep_first)
  have srt: "sorted (map (\<lambda>r. - score r) ?sorted)" by (rule sorted_sort_key)
  have len: "int (length found) \<le> limit" using found lim by simp
  have "distinct (map result_key ?unique)" by (rule distinct_keep_first_by)
  then have "distinct (take (nat limit) (map result_key ?unique))"
    by (rule distinct_take)
  then have "distinct (map result_key found)"
    unfolding found by (simp only: take_map)
  then have dist: "distinct (map result_pair found)"
    by (rule distinct_pairs_of_keys)
  have "sorted (map (\<lambda>r. - score r) ?unique)"
    using srt by (rule sorted_keep_first_by)
  then have "sorted (take (nat limit) (map (\<lambda>r. - score r) ?unique))"
    by (rule sorted_wrt_take)
  then have sf: "sorted (map (\<lambda>r. - score r) found)"
    unfolding found by (simp only: take_map)
  have pair: "found = take (nat limit) (keep_first_by result_pair ?sorted)"
    if nc: "\<forall>r\<in>set ?results. CHR '':'' \<notin> set (ts (sr_message r))"
  proof -
    have "?unique = keep_first_by result_pair ?sorted"
    proof (rule keep_first_by_cong)
      fix x y
      assume "x \<in> set ?sorted" "y \<in> set ?sorted"
      then have "x \<in> set ?results" "y \<in> set ?results" by simp_all
      then show "(result_key x = result_key y) = (result_pair x = result_pair y)"
        using nc by (intro result_key_pair) blast+
    qed
    then show ?thesis using found by simp
  qed
  have top: "score r \<le> score u"
    if "u \<in> set found" "r \<in> set ?results" "result_key r = result_key u" for u r
  proof -
    have u: "u \<in> set ?unique" using that(1) found by (auto dest: in_set_takeD)
    have r: "r \<in> set ?sorted" using that(2) by simp
    from keep_first_by_kept_least[OF srt u r that(3)] show ?thesis by simp
  qed
  have best: "\<exists>u\<in>set found. result_key u = result_key r \<and> score r \<le> score u"
    if "r \<in> set ?results" "int (length found) < limit" for r
  proof -
    have "r \<in> set ?sorted" using that(1) by simp
    from keep_first_by_least[OF srt this, of result_key]
    obtain u where u: "u \<in> set ?unique" "result_key u = result_key r" "- score u \<le> - score r"
      by blast
    have "length ?unique \<le> nat limit \<or> length found = nat limit"
      using found by (auto simp: min_def)
    then have "found = ?unique" using that(2) found lim by auto
    then show ?thesis using u by auto
  qed
  show ?thesis
    using vr tr ar found pair top best len dist sf by blast
qed

theorem search_combination_witness:
  "isl (search (api_only [api_hit ''C1'' ''100.000001'' (1 / 2), api_hit ''C1'' ''300.000001'' (3 / 4)])
          ''deploy'' 2 False True True (text_store ''we will deploy tonight!'')) = False
   \<and> map (\<lambda>r. (match_type r, result_pair r, score r))
       (projr (search (api_only [api_hit ''C1'' ''100.000001'' (1 / 2),
                                 api_hit ''C1'' ''300.000001'' (3 / 4)])
                 ''deploy'' 2 False True True (text_store ''we will deploy tonight!'')))
     = [(''slack_api'', (''C1'', ''300.000001''), 3 / 4), (''text'', (''C1'', ''100.000001''), 15 / 23)]
   \<and> map (\<lambda>r. (match_type r, result_pair r, score r))
       (projr (text_search (\<lambda>t pattern. True) ''deploy'' 2 (text_store ''we will deploy tonight!''))
        @ projr (slack_api_search
                   (api_only [api_hit ''C1'' ''100.000001'' (1 / 2), api_hit ''C1'' ''300.000001'' (3 / 4)])
                   ''deploy'' 2))
     = [(''text'', (''C1'', ''100.000001''), 15 / 23), (''slack_api'', (''C1'', ''100.000001''), 1 / 2),
        (''slack_api'', (''C1'', ''300.000001''), 3 / 4)]
   \<and> projr (search (api_only [api_hit ''C1'' ''100.000001'' (1 / 2),
                               api_hit ''C1'' ''300.000001'' (3 / 4)])
               ''deploy'' 2 False True True (text_store ''we will deploy tonight!''))
     = take 2 (keep_first_by result_pair (sort_key (\<lambda>r. - score r)
         (projr (text_search (\<lambda>t pattern. True) ''deploy'' 2 (text_store ''we will deploy tonight!''))
          @ projr (slack_api_search
                     (api_only [api_hit ''C1'' ''100.000001'' (1 / 2),
                                api_hit ''C1'' ''300.000001'' (3 / 4)])
                     ''deploy'' 2))))"
proof -
  let ?se = "api_only [api_hit ''C1'' ''100.000001'' (1 / 2), api_hit ''C1'' ''300.000001'' (3 / 4)]"
  let ?st = "text_store ''we will deploy tonight!''"
  let ?run = "search ?se ''deploy'' 2 False True True ?st"
  have h1: "True \<or> (0::int) \<le> 2" by simp
  have h2: "?run = Inr (projr ?run)"
    by code_simp
  have ev: "map (\<lambda>r. (match_type r, result_pair r, score r)) (projr ?run)
     = [(''slack_api'', (''C1'', ''300.000001''), 3 / 4), (''text'', (''C1'', ''100.000001''), 15 / 23)]"
    by code_simp
  from search_combination[OF h1 h2] obtain vr tr ar where
    v: "(if False \<and> embedding_service ?se then vector_search ?se ''deploy'' 2 else Inr []) = Inr vr"
    and t: "(if True then text_search (ilike ?se) ''deploy'' 2 ?st else Inr []) = Inr tr"
    and a: "(if True then slack_api_search ?se ''deploy'' 2 else Inr []) = Inr ar"
    and p: "(\<forall>r\<in>set (vr @ tr @ ar). CHR '':'' \<notin> set (ts (sr_message r))) \<longrightarrow>
           projr ?run = take (nat 2)
             (keep_first_by result_pair (sort_key (\<lambda>r. - score r) (vr @ tr @ ar)))"
    by blast
  have vr: "vr = []" using v by simp
  have tse: "text_search (\<lambda>t pattern. True) ''deploy'' 2 ?st = Inr tr"
    using t by (simp add: api_only_def)
  have ase: "slack_api_search ?se ''deploy'' 2 = Inr ar" using a by simp
  have m0: "map (\<lambda>r. (match_type r, result_pair r, score r)) (tr @ ar)
     = [(''text'', (''C1'', ''100.000001''), 15 / 23), (''slack_api'', (''C1'', ''100.000001''), 1 / 2),
        (''slack_api'', (''C1'', ''300.000001''), 3 / 4)]"
    using tse ase by (auto simp: search_defs)
  have sel: "projr (text_search (\<lambda>t pattern. True) ''deploy'' 2 ?st) @ projr (slack_api_search ?se ''deploy'' 2)
      = tr @ ar"
    by (simp only: tse ase sum.sel)
  have "map (\<lambda>r. snd (result_pair r)) (tr @ ar)
      = map (\<lambda>x. snd (fst (snd x))) (map (\<lambda>r. (match_type r, result_pair r, score r)) (tr @ ar))"
    by (simp add: comp_def)
  also have "\<dots> = [''100.000001'', ''100.000001'', ''300.000001'']"
    unfolding m0 by simp
  finally have L: "map (\<lambda>r. ts (sr_message r)) (tr @ ar) = [''100.000001'', ''100.000001'', ''300.000001'']"
    by (simp add: result_pair_def)
  have nc: "\<forall>r\<in>set (vr @ tr @ ar). CHR '':'' \<notin> set (ts (sr_message r))"
  proof
    fix r
    assume "r \<in> set (vr @ tr @ ar)"
    then have "r \<in> set (tr @ ar)" by (simp add: vr)
    then have "ts (sr_message r) \<in> (\<lambda>r. ts (sr_message r)) ` set (tr @ ar)" by (rule imageI)
    then have "ts (sr_message r) \<in> set (map (\<lambda>r. ts (sr_message r)) (tr @ ar))"
      by (simp only: set_map)
    then have "ts (sr_message r) \<in> set [''100.000001'', ''100.000001'', ''300.000001'']"
      by (simp only: L)
    then have "ts (sr_message r) = ''100.000001'' \<or> ts (sr_message r) = ''300.000001''"
      by (simp only: list.set insert_iff empty_iff) blast
    then show "CHR '':'' \<notin> set (ts (sr_message r))"
    proof
      assume "ts (sr_message r) = ''100.000001''"
      then show ?thesis by simp
    next
      assume "ts (sr_message r) = ''300.000001''"
      then show ?thesis by simp
    qed
  qed
  from p nc have pr: "projr ?run = take 2 (keep_first_by result_pair (sort_key (\<lambda>r. - score r) (tr @ ar)))"
    by (simp add: vr)
  have ni: "isl ?run = False" by (subst h2) simp
  show ?thesis unfolding sel using ni ev m0 pr by (intro conjI)
qed

lemma matches_here_empty [simp]: "matches_here [] t"
  by (simp add: matches_here_def)

lemma re_search_bounds:
  "re_search query t pos = Some start \<Longrightarrow> t \<noteq> [] \<Longrightarrow> pos \<le> start \<and> start - pos < length t"
proof (induction t arbitrary: pos)
  case Nil
  then show ?case by simp
next
  case (Cons c cs)
  show ?case
  proof (cases "matches_here query (c # cs)")
    case True
    then show ?thesis using Cons.prems by simp
  next
    case False
    then have rest: "re_search query cs (Suc pos) = Some start" using Cons.prems by simp
    have "cs \<noteq> []"
    proof
      assume "cs = []"
      then have "query = []" using rest by (simp split: if_splits)
      then show False using False by simp
    qed
    from Cons.IH[OF rest this] show ?thesis by auto
  qed
qed

lemma text_search_member:
  assumes "text_search op query limit s = Inr results" "r \<in> set results"
  shows "\<exists>m\<in>set (messages s). sr_message r = row_to_message m \<and> score r = text_score query (row_text m)
      \<and> match_type r = ''text''"
proof -
  from assms obtain m cn un where
    "(m, cn, un) \<in> set (take (nat limit) (text_search_rows op query s))"
    "sr_message r = row_to_message m" "score r = text_score query (row_text m)" "match_type r = ''text''"
    by (auto simp: text_search_def split: if_splits)
  moreover from this(1) have "(m, cn, un) \<in> set (text_search_rows op query s)"
    by (rule in_set_takeD)
  then have "m \<in> set (messages s)"
    by (auto simp: text_search_rows_def)
  ultimately show ?thesis by blast
qed

text \<open>The score of a row without a text, with an empty text, or with a text in which
  the query does not match.\<close>

lemma text_score_half:
  "text_score query None = 1 / 2"
  "text_score query (Some []) = 1 / 2"
  "re_search query t 0 = None \<Longrightarrow> text_score query (Some t) = 1 / 2"
  by (simp_all add: text_score_def)

text \<open>
  C6, as amended. For every result of the text search whose message has a non-empty
  text in which the query matches (first, ignoring case) at position \<open>start\<close>, the
  score is \<open>1 - start / length\<close>: 1 for a match at position 0, above 0 and at most 1
  always, so it degrades toward 0 (not toward 0.5) as the match nears the end of the
  text; for a match at position 8 of a text of length 23 it is \<open>15/23\<close>, between
  0.652 and 0.653. (0.5 is the score of a row whose text is empty or has no such
  match.)
\<close>

theorem text_search_score:
  assumes "text_search op query limit s = Inr results"
    and "r \<in> set results"
    and "msg_text (sr_message r) = Some t" and "t \<noteq> []"
    and "re_search query t 0 = Some start"
  shows "score r = 1 - of_nat start / of_nat (length t)
    \<and> (start = 0 \<longrightarrow> score r = 1)
    \<and> 0 < score r \<and> score r \<le> 1
    \<and> (start = 8 \<and> length t = 23 \<longrightarrow> score r = 15 / 23 \<and> 652 / 1000 < score r \<and> score r < 653 / 1000)"
proof -
  from text_search_member[OF assms(1,2)] obtain m where
    m: "sr_message r = row_to_message m" "score r = text_score query (row_text m)" by blast
  have "row_text m = Some t" using m(1) assms(3) by (simp add: row_to_message_def)
  then have sc: "score r = 1 - of_nat start / of_nat (length t)"
    using m(2) assms(4,5) by (simp add: text_score_def)
  have b: "start < length t" using re_search_bounds[OF assms(5,4)] by simp
  have pos: "(0::rat) < of_nat (length t)" using assms(4) by simp
  have "(of_nat start :: rat) < of_nat (length t)" using b by simp
  then have lt1: "(of_nat start :: rat) / of_nat (length t) < 1"
    using pos by (simp add: divide_less_eq)
  have ge0: "(0::rat) \<le> of_nat start / of_nat (length t)" by simp
  show ?thesis
  proof (intro conjI impI)
    show "score r = 1 - of_nat start / of_nat (length t)" by (rule sc)
    show "score r = 1" if "start = 0" using sc that by simp
    show "0 < score r" using sc lt1 by simp
    show "score r \<le> 1" using sc ge0 by simp
    show "score r = 15 / 23" if "start = 8 \<and> length t = 23" using sc that by simp
    show "652 / 1000 < score r" if "start = 8 \<and> length t = 23" using sc that by simp
    show "score r < 653 / 1000" if "start = 8 \<and> length t = 23" using sc that by simp
  qed
qed


theorem text_search_score_witness:
  "re_search ''deploy'' ''we will deploy tonight!'' 0 = Some 8
   \<and> length ''we will deploy tonight!'' = 23
   \<and> score (hd (projr (text_search (\<lambda>t pattern. True) ''deploy'' 10
                        (text_store ''we will deploy tonight!'')))) = 15 / 23"
proof -
  let ?run = "text_search (\<lambda>t pattern. True) ''deploy'' 10 (text_store ''we will deploy tonight!'')"
  have h1: "?run = Inr (projr ?run)" by (simp add: search_defs)
  have h2: "hd (projr ?run) \<in> set (projr ?run)" by (simp add: search_defs)
  have h3: "msg_text (sr_message (hd (projr ?run))) = Some ''we will deploy tonight!''"
    by (simp add: search_defs)
  have h4: "''we will deploy tonight!'' \<noteq> []" by simp
  have h5: "re_search ''deploy'' ''we will deploy tonight!'' 0 = Some 8"
    by (simp add: search_defs)
  from text_search_score[OF h1 h2 h3 h4 h5] show ?thesis
    using h5 by simp
qed

text \<open>The claim as stated fails where the match starts in the second half of the
  text: the score is below 0.5.\<close>

theorem late_match_counterexample:
  "re_search ''Deploy'' ''please deploy'' 0 = Some 7
   \<and> map score (projr (text_search (\<lambda>t pattern. True) ''Deploy'' 10 (text_store ''please deploy'')))
       = [6 / 13]
   \<and> (6 / 13 :: rat) < 1 / 2"
  by (simp add: search_defs)

end
